theory Spec2Isabelle
  imports Complex_Main "HOL-Library.Sublist" "HOL-Library.AList"
begin

section \<open>Strings and the two in-stream markers\<close>

text \<open>
  A JavaScript string is modelled as a \<^typ>\<open>string\<close>, the list of its code units;
  \<open>length\<close> is JavaScript's \<open>.length\<close>. A \<^typ>\<open>char\<close> has 256 values, so the
  character classes below are given on the code units 0 to 255.

  The searches below are the regular expressions of \<open>services/geminiService.ts\<close> and
  \<open>services/videoUtils.ts\<close>, written out as the backtracking matcher runs them: the
  leftmost start position first, a greedy quantifier longest first, a lazy one shortest
  first, alternatives in their order.
\<close>

text \<open>
  \<open>after_first needle s\<close>: the text after the leftmost occurrence of \<open>needle\<close> in
  \<open>s\<close>, or \<open>None\<close> when there is none (the start of a regular expression that begins
  with a literal, and \<open>String.prototype.includes\<close>).
\<close>

fun after_first :: "'a list \<Rightarrow> 'a list \<Rightarrow> 'a list option" where
  "after_first needle [] = (if needle = [] then Some [] else None)"
| "after_first needle (c # cs) =
     (if prefix needle (c # cs) then Some (drop (length needle) (c # cs))
      else after_first needle cs)"

text \<open>
  \<open>lazy_until stop s\<close> is the capture of \<open>([\s\S]*?)(?:stop|$)\<close> started at \<open>s\<close>:
  the shortest prefix of \<open>s\<close> that is followed by \<open>stop\<close>, and all of \<open>s\<close> when
  \<open>stop\<close> does not occur (there \<open>$\<close> matches, at the end of the input).
\<close>

fun lazy_until :: "'a list \<Rightarrow> 'a list \<Rightarrow> 'a list" where
  "lazy_until stop [] = []"
| "lazy_until stop (c # cs) =
     (if prefix stop (c # cs) then [] else c # lazy_until stop cs)"

definition thinking_open :: string where
  "thinking_open = ''<thinking>''"

definition thinking_close :: string where
  "thinking_close = ''</thinking>''"

text \<open>
  \<open>fullText.match(/<thinking>([\s\S]*?)(?:<\/thinking>|$)/)\<close>, reduced to its capture
  group 1: \<open>None\<close> is JavaScript's \<open>null\<close> (no match).
\<close>

definition thinking_match :: "string \<Rightarrow> string option" where
  "thinking_match s = map_option (lazy_until thinking_close) (after_first thinking_open s)"

text \<open>\<open>s.includes(needle)\<close>.\<close>

definition includes_js :: "'a list \<Rightarrow> 'a list \<Rightarrow> bool" where
  "includes_js s needle = (after_first needle s \<noteq> None)"

text \<open>
  \<open>s.split(sep)[1]\<close> for a non-empty separator: the piece between the first and the
  second occurrence of \<open>sep\<close>; \<open>None\<close> is \<open>undefined\<close> (\<open>sep\<close> does not occur, so the
  array has one element).
\<close>

definition split_1 :: "'a list \<Rightarrow> 'a list \<Rightarrow> 'a list option" where
  "split_1 sep s = map_option (lazy_until sep) (after_first sep s)"

section \<open>The stream loop of \<open>analyzeVideoAndCreateRevivalPlan\<close>\<close>

text \<open>
  The loop's variables, and the calls of the \<open>onThinking\<close> callback in the order they were
  made. A chunk is its \<open>chunk.text\<close>: \<open>None\<close> for \<open>undefined\<close>.
\<close>

record stream_state =
  fullText :: string
  thinkingText :: string
  emitted :: "string list"

definition init_state :: stream_state where
  "init_state = \<lparr>fullText = [], thinkingText = [], emitted = []\<rparr>"

definition append_chunk :: "string \<Rightarrow> string option \<Rightarrow> string" where
  "append_chunk buf chunk =
     (case chunk of
        None \<Rightarrow> buf
      | Some t \<Rightarrow> if t \<noteq> [] then buf @ t else buf)"

definition step :: "stream_state \<Rightarrow> string option \<Rightarrow> stream_state" where
  "step st chunk =
     (let ft = append_chunk (fullText st) chunk in
      case thinking_match ft of
        Some m \<Rightarrow> \<lparr>fullText = ft, thinkingText = m, emitted = emitted st @ [m]\<rparr>
      | None \<Rightarrow>
          if includes_js ft thinking_open then
            (let t = (case split_1 thinking_open ft of
                        None \<Rightarrow> []
                      | Some piece \<Rightarrow> piece)
             in \<lparr>fullText = ft, thinkingText = t, emitted = emitted st @ [t]\<rparr>)
          else st\<lparr>fullText := ft\<rparr>)"

fun stream_loop :: "stream_state \<Rightarrow> string option list \<Rightarrow> stream_state" where
  "stream_loop st [] = st"
| "stream_loop st (chunk # chunks) = stream_loop (step st chunk) chunks"

section \<open>Finalization: the fenced block\<close>

definition fence :: string where
  "fence = ''```''"

text \<open>The class \<open>\s\<close> of a JavaScript regular expression, on the code units 0..255.\<close>

definition is_space :: "char \<Rightarrow> bool" where
  "is_space c \<longleftrightarrow> c \<in> {CHR 0x09, CHR 0x0A, CHR 0x0B, CHR 0x0C, CHR 0x0D, CHR 0x20, CHR 0xA0}"

text \<open>
  \<open>json\<close> under the flag \<open>i\<close>: each letter in either case (canonicalization maps no
  other code unit to an ASCII letter).
\<close>

definition json_tag :: "string \<Rightarrow> bool" where
  "json_tag r \<longleftrightarrow>
     length r \<ge> 4
     \<and> r ! 0 \<in> {CHR ''j'', CHR ''J''} \<and> r ! 1 \<in> {CHR ''s'', CHR ''S''}
     \<and> r ! 2 \<in> {CHR ''o'', CHR ''O''} \<and> r ! 3 \<in> {CHR ''n'', CHR ''N''}"

text \<open>
  A greedy \<open>\s*\<close> followed by the rest \<open>k\<close> of the expression: the run of white space
  is taken as long as it goes, and given back one character at a time while \<open>k\<close> fails.
\<close>

fun greedy_ws :: "(string \<Rightarrow> 'a option) \<Rightarrow> string \<Rightarrow> 'a option" where
  "greedy_ws k [] = k []"
| "greedy_ws k (c # cs) =
     (if is_space c then
        (case greedy_ws k cs of
           Some r \<Rightarrow> Some r
         | None \<Rightarrow> k (c # cs))
      else k (c # cs))"

text \<open>\<open>\s*```\<close> at the start of \<open>s\<close>.\<close>

definition ws_fence :: "string \<Rightarrow> bool" where
  "ws_fence s \<longleftrightarrow> greedy_ws (\<lambda>t. if prefix fence t then Some () else None) s \<noteq> None"

text \<open>
  The capture of \<open>([\s\S]*?)\s*```\<close> started at \<open>s\<close>: the lazy group takes no
  character, then one more each time the rest fails; \<open>None\<close> when every length fails.
\<close>

fun lazy_block :: "string \<Rightarrow> string option" where
  "lazy_block [] = (if ws_fence [] then Some [] else None)"
| "lazy_block (c # cs) =
     (if ws_fence (c # cs) then Some [] else map_option ((#) c) (lazy_block cs))"

text \<open>
  \<open>/```(?:json)?\s*([\s\S]*?)\s*```/i\<close> tried at the start of \<open>s\<close>: the optional tag is
  taken when it is there, and given up when the rest then fails.
\<close>

definition fence_here :: "string \<Rightarrow> string option" where
  "fence_here s =
     (if prefix fence s then
        (let r = drop 3 s;
             tagged = (if json_tag r then greedy_ws lazy_block (drop 4 r) else None)
         in case tagged of
              Some cap \<Rightarrow> Some cap
            | None \<Rightarrow> greedy_ws lazy_block r)
      else None)"

text \<open>\<open>fullText.match(...)\<close>: the leftmost start position that matches; group 1.\<close>

fun fence_match :: "string \<Rightarrow> string option" where
  "fence_match [] = None"
| "fence_match (c # cs) =
     (case fence_here (c # cs) of
        Some cap \<Rightarrow> Some cap
      | None \<Rightarrow> fence_match cs)"

section \<open>Finalization: the parsed payload\<close>

text \<open>
  The values \<open>JSON.parse\<close> returns. An object lists its own properties with distinct
  keys; an array is an object too and can receive named properties (the second argument
  of \<open>JArray\<close>, empty after parsing). A number is its exact decimal value.
\<close>

datatype json =
    JNull
  | JBool bool
  | JNumber rat
  | JString string
  | JArray "json list" "(string \<times> json) list"
  | JObject "(string \<times> json) list"

datatype error =
    ApiKeyNotFound
  | ProviderError string
  | NoJsonBlock
  | JsonParseFailed
  | TypeError
  | NoImageGenerated

text \<open>Truthiness of a value, and of a property read (\<open>None\<close> is \<open>undefined\<close>).\<close>

fun truthy :: "json \<Rightarrow> bool" where
  "truthy JNull = False"
| "truthy (JBool b) = b"
| "truthy (JNumber n) = (n \<noteq> 0)"
| "truthy (JString s) = (s \<noteq> [])"
| "truthy (JArray es ps) = True"
| "truthy (JObject kvs) = True"

fun truthy_opt :: "json option \<Rightarrow> bool" where
  "truthy_opt None = False"
| "truthy_opt (Some v) = truthy v"

text \<open>
  \<open>v.name\<close> for a name that no built-in prototype defines (the three names read here
  are such): reading a property of \<open>null\<close> throws a TypeError, a primitive has none.
\<close>

fun get_prop :: "json \<Rightarrow> string \<Rightarrow> error + json option" where
  "get_prop JNull k = Inl TypeError"
| "get_prop (JObject kvs) k = Inr (map_of kvs k)"
| "get_prop (JArray es ps) k = Inr (map_of ps k)"
| "get_prop (JBool b) k = Inr None"
| "get_prop (JNumber n) k = Inr None"
| "get_prop (JString s) k = Inr None"

text \<open>
  \<open>v.name = x\<close> in module code, which is strict: an existing property keeps its place,
  a new one comes last, and creating a property on a primitive throws a TypeError.
\<close>

fun set_prop :: "json \<Rightarrow> string \<Rightarrow> json \<Rightarrow> error + json" where
  "set_prop (JObject kvs) k x = Inr (JObject (AList.update k x kvs))"
| "set_prop (JArray es ps) k x = Inr (JArray es (AList.update k x ps))"
| "set_prop JNull k x = Inl TypeError"
| "set_prop (JBool b) k x = Inl TypeError"
| "set_prop (JNumber n) k x = Inl TypeError"
| "set_prop (JString s) k x = Inl TypeError"

definition default_metadata :: json where
  "default_metadata =
     JObject [(''title'', JString ''Unknown Title''),
              (''publishDate'', JString ''Unknown Date''),
              (''currentViews'', JNumber 0)]"

text \<open>The unwrapping of lines 133 to 135.\<close>

definition unwrap :: "json \<Rightarrow> error + json" where
  "unwrap parsedData =
     (case get_prop parsedData ''RevivalStrategy'' of
        Inl e \<Rightarrow> Inl e
      | Inr upper \<Rightarrow>
          if truthy_opt upper then Inr (the upper)
          else (case get_prop parsedData ''revivalStrategy'' of
                  Inl e \<Rightarrow> Inl e
                | Inr lower \<Rightarrow>
                    if truthy_opt lower then Inr (the lower) else Inr parsedData))"

text \<open>The repair of lines 138 to 145.\<close>

definition repair :: "json \<Rightarrow> error + json" where
  "repair strategy =
     (case get_prop strategy ''originalVideoMetadata'' of
        Inl e \<Rightarrow> Inl e
      | Inr m \<Rightarrow>
          if \<not> truthy_opt m then set_prop strategy ''originalVideoMetadata'' default_metadata
          else Inr strategy)"

definition unwrap_and_repair :: "json \<Rightarrow> error + json" where
  "unwrap_and_repair parsedData =
     (case unwrap parsedData of
        Inl e \<Rightarrow> Inl e
      | Inr strategy \<Rightarrow> repair strategy)"

text \<open>
  Lines 114 to 147. \<open>JSON.parse\<close> is the host's: it is the parameter \<open>parse\<close>, \<open>None\<close>
  when it throws a SyntaxError.
\<close>

definition finalize :: "(string \<Rightarrow> json option) \<Rightarrow> string \<Rightarrow> error + json" where
  "finalize parse text =
     (case fence_match text of
        None \<Rightarrow> Inl NoJsonBlock
      | Some jsonStr \<Rightarrow>
          (case parse jsonStr of
             None \<Rightarrow> Inl JsonParseFailed
           | Some parsedData \<Rightarrow> unwrap_and_repair parsedData))"

text \<open>
  The whole function: the key from the environment (\<open>None\<close> when unset), and the
  provider's stream as the chunks it delivers and the error it throws after them, if
  any. The result is the calls of \<open>onThinking\<close> and the promise's outcome.
\<close>

definition analyzeVideoAndCreateRevivalPlan ::
  "(string \<Rightarrow> json option) \<Rightarrow> string option \<Rightarrow> string option list \<times> error option
     \<Rightarrow> string list \<times> (error + json)" where
  "analyzeVideoAndCreateRevivalPlan parse apiKey stream =
     (if apiKey = None \<or> apiKey = Some [] then ([], Inl ApiKeyNotFound)
      else
        (let st = stream_loop init_state (fst stream) in
         case snd stream of
           Some e \<Rightarrow> (emitted st, Inl e)
         | None \<Rightarrow> (emitted st, finalize parse (fullText st))))"

section \<open>A reference \<open>JSON.parse\<close>\<close>

text \<open>
  A parser for the JSON grammar, to have a concrete \<open>parse\<close> at hand: white space, the
  three literals, numbers, strings with their escapes (an escape \<open>\uXXXX\<close> above
  \<open>\u00FF\<close> has no value in the model and is refused), arrays and objects, where a
  repeated key keeps its first place and its last value. The fuel bounds the nesting
  and the number of values; every call consumes input, so one more than the length of
  the text is enough.
\<close>

definition json_ws :: "char \<Rightarrow> bool" where
  "json_ws c \<longleftrightarrow> c \<in> {CHR 0x20, CHR 0x09, CHR 0x0A, CHR 0x0D}"

definition skip_ws :: "string \<Rightarrow> string" where
  "skip_ws s = dropWhile json_ws s"

definition is_digit :: "char \<Rightarrow> bool" where
  "is_digit c \<longleftrightarrow> (48::nat) \<le> of_char c \<and> of_char c \<le> (57::nat)"

definition digits_value :: "string \<Rightarrow> nat" where
  "digits_value ds = foldl (\<lambda>acc c. 10 * acc + (of_char c - 48)) 0 ds"

definition hex_value :: "char \<Rightarrow> nat option" where
  "hex_value c =
     (let n = of_char c :: nat in
      if 48 \<le> n \<and> n \<le> 57 then Some (n - 48)
      else if 65 \<le> n \<and> n \<le> 70 then Some (n - 55)
      else if 97 \<le> n \<and> n \<le> 102 then Some (n - 87)
      else None)"

definition escape_value :: "char \<Rightarrow> char option" where
  "escape_value e =
     (if e = CHR 0x22 then Some (CHR 0x22)
      else if e = CHR 0x5C then Some (CHR 0x5C)
      else if e = CHR ''/'' then Some (CHR ''/'')
      else if e = CHR ''b'' then Some (CHR 0x08)
      else if e = CHR ''f'' then Some (CHR 0x0C)
      else if e = CHR ''n'' then Some (CHR 0x0A)
      else if e = CHR ''r'' then Some (CHR 0x0D)
      else if e = CHR ''t'' then Some (CHR 0x09)
      else None)"

definition unicode_escape :: "string \<Rightarrow> char option" where
  "unicode_escape hs =
     (case map hex_value hs of
        [Some a, Some b, Some c, Some d] \<Rightarrow>
          if a = 0 \<and> b = 0 then Some (char_of (16 * c + d)) else None
      | _ \<Rightarrow> None)"

definition cons_fst :: "'a \<Rightarrow> ('a list \<times> 'b) option \<Rightarrow> ('a list \<times> 'b) option" where
  "cons_fst x r = map_option (\<lambda>(xs, rest). (x # xs, rest)) r"

text \<open>The characters of a string after its opening quote, up to the closing one.\<close>

fun parse_chars :: "string \<Rightarrow> (string \<times> string) option" where
  "parse_chars [] = None"
| "parse_chars [c] = (if c = CHR 0x22 then Some ([], []) else None)"
| "parse_chars (c # e # cs) =
     (if c = CHR 0x22 then Some ([], e # cs)
      else if c = CHR 0x5C then
        (if e = CHR ''u'' then
           (case unicode_escape (take 4 cs) of
              None \<Rightarrow> None
            | Some x \<Rightarrow> cons_fst x (parse_chars (drop 4 cs)))
         else
           (case escape_value e of
              None \<Rightarrow> None
            | Some x \<Rightarrow> cons_fst x (parse_chars cs)))
      else if (of_char c :: nat) < 32 then None
      else cons_fst c (parse_chars (e # cs)))"

definition parse_number :: "string \<Rightarrow> (rat \<times> string) option" where
  "parse_number s =
     (let neg = (s \<noteq> [] \<and> hd s = CHR ''-'');
          s1 = (if neg then tl s else s);
          ds = takeWhile is_digit s1;
          s2 = dropWhile is_digit s1;
          has_frac = (s2 \<noteq> [] \<and> hd s2 = CHR ''.'');
          fs = (if has_frac then takeWhile is_digit (tl s2) else []);
          s3 = (if has_frac then dropWhile is_digit (tl s2) else s2);
          has_exp = (s3 \<noteq> [] \<and> hd s3 \<in> {CHR ''e'', CHR ''E''});
          s4 = (if has_exp then tl s3 else s3);
          eneg = (has_exp \<and> s4 \<noteq> [] \<and> hd s4 = CHR ''-'');
          s5 = (if has_exp \<and> s4 \<noteq> [] \<and> hd s4 \<in> {CHR ''+'', CHR ''-''} then tl s4 else s4);
          es = (if has_exp then takeWhile is_digit s5 else []);
          s6 = (if has_exp then dropWhile is_digit s5 else s3);
          mantissa = of_nat (digits_value (ds @ fs)) / 10 ^ length fs :: rat;
          scaled = (if eneg then mantissa / 10 ^ digits_value es
                    else mantissa * 10 ^ digits_value es)
      in if ds = [] \<or> (length ds > 1 \<and> hd ds = CHR ''0'') then None
         else if has_frac \<and> fs = [] then None
         else if has_exp \<and> es = [] then None
         else Some (if neg then - scaled else scaled, s6))"

definition last_wins :: "(string \<times> json) list \<Rightarrow> (string \<times> json) list" where
  "last_wins kvs = foldl (\<lambda>acc kv. AList.update (fst kv) (snd kv) acc) [] kvs"

fun parse_value :: "nat \<Rightarrow> string \<Rightarrow> (json \<times> string) option"
  and parse_elements :: "nat \<Rightarrow> string \<Rightarrow> (json list \<times> string) option"
  and parse_members :: "nat \<Rightarrow> string \<Rightarrow> ((string \<times> json) list \<times> string) option"
where
  "parse_value 0 s = None"
| "parse_value (Suc n) s =
     (let t = skip_ws s in
      if t = [] then None
      else if hd t = CHR ''{'' then
        (if prefix ''}'' (skip_ws (tl t)) then Some (JObject [], tl (skip_ws (tl t)))
         else map_option (\<lambda>(kvs, rest). (JObject (last_wins kvs), rest)) (parse_members n (tl t)))
      else if hd t = CHR ''['' then
        (if prefix '']'' (skip_ws (tl t)) then Some (JArray [] [], tl (skip_ws (tl t)))
         else map_option (\<lambda>(vs, rest). (JArray vs [], rest)) (parse_elements n (tl t)))
      else if hd t = CHR 0x22 then
        map_option (\<lambda>(str, rest). (JString str, rest)) (parse_chars (tl t))
      else if prefix ''true'' t then Some (JBool True, drop 4 t)
      else if prefix ''false'' t then Some (JBool False, drop 5 t)
      else if prefix ''null'' t then Some (JNull, drop 4 t)
      else map_option (\<lambda>(q, rest). (JNumber q, rest)) (parse_number t))"
| "parse_elements 0 s = None"
| "parse_elements (Suc n) s =
     (case parse_value n s of
        None \<Rightarrow> None
      | Some (v, r) \<Rightarrow>
          (let t = skip_ws r in
           if prefix '','' t then cons_fst v (parse_elements n (tl t))
           else if prefix '']'' t then Some ([v], tl t)
           else None))"
| "parse_members 0 s = None"
| "parse_members (Suc n) s =
     (let t = skip_ws s in
      if \<not> prefix [CHR 0x22] t then None
      else
        (case parse_chars (tl t) of
           None \<Rightarrow> None
         | Some (k, r1) \<Rightarrow>
             (let t1 = skip_ws r1 in
              if \<not> prefix '':'' t1 then None
              else
                (case parse_value n (tl t1) of
                   None \<Rightarrow> None
                 | Some (v, r2) \<Rightarrow>
                     (let t2 = skip_ws r2 in
                      if prefix '','' t2 then cons_fst (k, v) (parse_members n (tl t2))
                      else if prefix ''}'' t2 then Some ([(k, v)], tl t2)
                      else None)))))"

definition json_parse :: "string \<Rightarrow> json option" where
  "json_parse s =
     (case parse_value (Suc (length s)) s of
        None \<Rightarrow> None
      | Some (v, rest) \<Rightarrow> if skip_ws rest = [] then Some v else None)"

section \<open>\<open>generateVisualOverlay\<close>\<close>

text \<open>
  The shape of the provider's response as the function reads it: every level of
  \<open>response.candidates?.[0]?.content?.parts\<close> may be missing, a part may carry inline
  data, and inline data may carry a mime type and encoded bytes (\<open>None\<close> is a property
  that is \<open>undefined\<close>).
\<close>

record blob =
  mimeType :: "string option"
  data :: "string option"

record part =
  inlineData :: "blob option"
  partText :: "string option"

record content =
  parts :: "part list option"

record candidate =
  content :: "content option"

record response =
  candidates :: "candidate list option"

definition response_parts :: "response \<Rightarrow> part list option" where
  "response_parts r =
     (case candidates r of
        None \<Rightarrow> None
      | Some cs \<Rightarrow>
          (case cs of
             [] \<Rightarrow> None
           | c # _ \<Rightarrow>
               (case content c of
                  None \<Rightarrow> None
                | Some ct \<Rightarrow> parts ct)))"

text \<open>
  The template literal of line 188; a value that is \<open>undefined\<close> is written out as
  the text \<open>undefined\<close>.
\<close>

definition data_url :: "string \<Rightarrow> string option \<Rightarrow> string" where
  "data_url mime bytes =
     ''data:'' @ mime @ '';base64,'' @ (case bytes of None \<Rightarrow> ''undefined'' | Some d \<Rightarrow> d)"

text \<open>
  The \<open>for\<close> loop of lines 186 to 190: \<open>Inr (Some url)\<close> is its \<open>return\<close>,
  \<open>Inr None\<close> its normal end. Calling \<open>startsWith\<close> on a mime type that is
  \<open>undefined\<close> throws a TypeError.
\<close>

fun first_image :: "part list \<Rightarrow> error + string option" where
  "first_image [] = Inr None"
| "first_image (p # ps) =
     (case inlineData p of
        None \<Rightarrow> first_image ps
      | Some b \<Rightarrow>
          (case mimeType b of
             None \<Rightarrow> Inl TypeError
           | Some mime \<Rightarrow>
               if prefix ''image/'' mime then Inr (Some (data_url mime (data b)))
               else first_image ps))"

definition generateVisualOverlay :: "string option \<Rightarrow> error + response \<Rightarrow> error + string" where
  "generateVisualOverlay apiKey provider =
     (if apiKey = None \<or> apiKey = Some [] then Inl ApiKeyNotFound
      else
        (case provider of
           Inl e \<Rightarrow> Inl e
         | Inr r \<Rightarrow>
             (case response_parts r of
                None \<Rightarrow> Inl NoImageGenerated
              | Some ps \<Rightarrow>
                  (case first_image ps of
                     Inl e \<Rightarrow> Inl e
                   | Inr (Some url) \<Rightarrow> Inr url
                   | Inr None \<Rightarrow> Inl NoImageGenerated))))"

section \<open>\<open>getYoutubeVideoId\<close>\<close>

text \<open>The classes \<open>.\<close> (no line terminator), \<open>\w\<close> and \<open>[^#&?]\<close>.\<close>

definition is_dot :: "char \<Rightarrow> bool" where
  "is_dot c \<longleftrightarrow> c \<noteq> CHR 0x0A \<and> c \<noteq> CHR 0x0D"

definition is_word :: "char \<Rightarrow> bool" where
  "is_word c \<longleftrightarrow>
     (let n = of_char c :: nat in
      (48 \<le> n \<and> n \<le> 57) \<or> (65 \<le> n \<and> n \<le> 90) \<or> (97 \<le> n \<and> n \<le> 122) \<or> n = 95)"

definition is_id_char :: "char \<Rightarrow> bool" where
  "is_id_char c \<longleftrightarrow> c \<noteq> CHR ''#'' \<and> c \<noteq> CHR ''&'' \<and> c \<noteq> CHR ''?''"

text \<open>
  Group 1, \<open>(youtu.be\/|v\/|u\/\w\/|embed\/|watch\?v=|&v=)\<close>, at the start of \<open>r\<close>:
  the text after the first alternative that matches.
\<close>

definition group1 :: "string \<Rightarrow> string option" where
  "group1 r =
     (if length r \<ge> 9 \<and> take 5 r = ''youtu'' \<and> is_dot (r ! 5) \<and> take 3 (drop 6 r) = ''be/''
        then Some (drop 9 r)
      else if prefix ''v/'' r then Some (drop 2 r)
      else if length r \<ge> 4 \<and> take 2 r = ''u/'' \<and> is_word (r ! 2) \<and> r ! 3 = CHR ''/''
        then Some (drop 4 r)
      else if prefix ''embed/'' r then Some (drop 6 r)
      else if prefix ''watch?v='' r then Some (drop 8 r)
      else if prefix ''&v='' r then Some (drop 3 r)
      else None)"

text \<open>
  \<open>^.*\<close> is greedy: it first takes \<open>k\<close> characters, then fewer, down to none, until
  group 1 matches behind it. Group 2, \<open>([^#&?]*)\<close>, then takes the longest run it can,
  and the closing \<open>.*\<close> matches whatever follows. The result is group 2.
\<close>

fun match_from :: "string \<Rightarrow> nat \<Rightarrow> string option" where
  "match_from url 0 = map_option (takeWhile is_id_char) (group1 url)"
| "match_from url (Suc k) =
     (case group1 (drop (Suc k) url) of
        Some r \<Rightarrow> Some (takeWhile is_id_char r)
      | None \<Rightarrow> match_from url k)"

definition getYoutubeVideoId :: "string \<Rightarrow> string option" where
  "getYoutubeVideoId url =
     (case match_from url (length (takeWhile is_dot url)) of
        None \<Rightarrow> None
      | Some g \<Rightarrow> if length g = 11 then Some g else None)"

section \<open>The dashboard's use of segment indices\<close>

text \<open>
  The types of \<open>types.ts\<close>; a field marked \<open>?\<close> is an option. A \<open>number\<close> that
  indexes an array is an \<^typ>\<open>int\<close>.
\<close>

record Segment =
  startTime :: string
  endTime :: string
  summary :: string
  subjects :: "string list"
  needsUpdate :: "bool option"

record OutdatedItem =
  subject :: string
  oldTool :: string
  newTool :: string
  reason :: string
  impactScore :: int
  affectedSegmentIndices :: "int list option"

record VideoMetadata =
  title :: string
  publishDate :: string
  currentViews :: int

record RevivalPlan =
  title :: string
  description :: string
  scriptOutline :: string

record RevivalStrategy =
  originalVideoMetadata :: "VideoMetadata option"
  segments :: "Segment list"
  outdatedItems :: "OutdatedItem list"
  revivalPlan :: "RevivalPlan option"
  revivalSummary :: "string option"
  predictedViews :: int
  predictedEngagement :: int

text \<open>\<open>xs[i]\<close>: \<open>undefined\<close> (\<open>None\<close>) outside the array, never an exception.\<close>

definition array_get :: "'a list \<Rightarrow> int \<Rightarrow> 'a option" where
  "array_get xs i = (if 0 \<le> i \<and> i < int (length xs) then Some (xs ! nat i) else None)"

text \<open>\<open>item.affectedSegmentIndices || []\<close>.\<close>

definition indices_or_empty :: "OutdatedItem \<Rightarrow> int list" where
  "indices_or_empty item =
     (case affectedSegmentIndices item of
        None \<Rightarrow> []
      | Some xs \<Rightarrow> xs)"

text \<open>
  The link rendered for one segment (lines 236 to 247): its key, and the segment whose
  start time and summary it shows.
\<close>

record segment_link =
  link_key :: int
  link_segment :: Segment

text \<open>
  The callback of \<open>.map\<close> at line 233: a link, or \<open>null\<close> (\<open>None\<close>), which renders
  nothing. A segment is an object, so it is truthy whenever it is there.
\<close>

definition render_segment :: "Segment list \<Rightarrow> int \<Rightarrow> segment_link option" where
  "render_segment segs segIdx =
     (case array_get segs segIdx of
        Some segment \<Rightarrow> Some \<lparr>link_key = segIdx, link_segment = segment\<rparr>
      | None \<Rightarrow> None)"

definition impacted_segments :: "Segment list \<Rightarrow> OutdatedItem \<Rightarrow> segment_link option list" where
  "impacted_segments segs item = map (render_segment segs) (indices_or_empty item)"

text \<open>The links that reach the page: the children that are not \<open>null\<close>.\<close>

definition rendered_links :: "Segment list \<Rightarrow> OutdatedItem \<Rightarrow> segment_link list" where
  "rendered_links segs item = concat (map (\<lambda>l. case l of None \<Rightarrow> [] | Some x \<Rightarrow> [x]) (impacted_segments segs item))"

text \<open>
  \<open>new Set(xs)\<close> adds the elements in turn and keeps the first of equal ones;
  \<open>.size\<close> is the number it holds.
\<close>

definition set_add :: "'a list \<Rightarrow> 'a \<Rightarrow> 'a list" where
  "set_add held x = (if x \<in> set held then held else held @ [x])"

definition new_Set :: "'a list \<Rightarrow> 'a list" where
  "new_Set xs = foldl set_add [] xs"

text \<open>
  Line 170: \<open>new Set(outdatedItems.flatMap(i => i.affectedSegmentIndices || [])).size\<close>.
\<close>

definition segments_impacted :: "RevivalStrategy \<Rightarrow> nat" where
  "segments_impacted strategy =
     length (new_Set (concat (map indices_or_empty (outdatedItems strategy))))"

section \<open>Inputs and shapes the properties speak of\<close>

text \<open>The end-to-end scenario: four fragments, the last one the fenced payload.\<close>

definition payload_text :: string where
  "payload_text =
     ''{\"segments\":[],\"outdatedItems\":[],\"predictedViews\":100,\"predictedEngagement\":50}''"

definition scenario :: "string option list" where
  "scenario =
     [Some ''<thi'', Some ''nking>Step 1...'', Some '' Step 2.</thinking>'',
      Some (''```json'' @ [CHR 0x0A] @ payload_text @ [CHR 0x0A] @ ''```'')]"

text \<open>
  A payload that is well formed for the interface \<open>RevivalStrategy\<close> of \<open>types.ts\<close>:
  an object with the declared properties and no other, each of its declared type.
\<close>

definition only_fields :: "string list \<Rightarrow> (string \<times> json) list \<Rightarrow> bool" where
  "only_fields names kvs = list_all (\<lambda>k. k \<in> set names) (map fst kvs)"

definition field :: "(string \<times> json) list \<Rightarrow> string \<Rightarrow> (json \<Rightarrow> bool) \<Rightarrow> bool" where
  "field kvs k P = (case map_of kvs k of None \<Rightarrow> False | Some v \<Rightarrow> P v)"

definition opt_field :: "(string \<times> json) list \<Rightarrow> string \<Rightarrow> (json \<Rightarrow> bool) \<Rightarrow> bool" where
  "opt_field kvs k P = (case map_of kvs k of None \<Rightarrow> True | Some v \<Rightarrow> P v)"

fun is_string :: "json \<Rightarrow> bool" where
  "is_string (JString s) = True"
| "is_string _ = False"

fun is_number :: "json \<Rightarrow> bool" where
  "is_number (JNumber n) = True"
| "is_number _ = False"

fun is_boolean :: "json \<Rightarrow> bool" where
  "is_boolean (JBool b) = True"
| "is_boolean _ = False"

fun is_array_of :: "(json \<Rightarrow> bool) \<Rightarrow> json \<Rightarrow> bool" where
  "is_array_of P (JArray es ps) = (list_all P es \<and> ps = [])"
| "is_array_of P _ = False"

fun is_Segment :: "json \<Rightarrow> bool" where
  "is_Segment (JObject kvs) =
     (only_fields [''startTime'', ''endTime'', ''summary'', ''subjects'', ''needsUpdate''] kvs
      \<and> field kvs ''startTime'' is_string
      \<and> field kvs ''endTime'' is_string
      \<and> field kvs ''summary'' is_string
      \<and> field kvs ''subjects'' (is_array_of is_string)
      \<and> opt_field kvs ''needsUpdate'' is_boolean)"
| "is_Segment _ = False"

fun is_OutdatedItem :: "json \<Rightarrow> bool" where
  "is_OutdatedItem (JObject kvs) =
     (only_fields [''subject'', ''oldTool'', ''newTool'', ''reason'', ''impactScore'',
                   ''affectedSegmentIndices''] kvs
      \<and> field kvs ''subject'' is_string
      \<and> field kvs ''oldTool'' is_string
      \<and> field kvs ''newTool'' is_string
      \<and> field kvs ''reason'' is_string
      \<and> field kvs ''impactScore'' is_number
      \<and> opt_field kvs ''affectedSegmentIndices'' (is_array_of is_number))"
| "is_OutdatedItem _ = False"

fun is_VideoMetadata :: "json \<Rightarrow> bool" where
  "is_VideoMetadata (JObject kvs) =
     (only_fields [''title'', ''publishDate'', ''currentViews''] kvs
      \<and> field kvs ''title'' is_string
      \<and> field kvs ''publishDate'' is_string
      \<and> field kvs ''currentViews'' is_number)"
| "is_VideoMetadata _ = False"

fun is_RevivalPlan :: "json \<Rightarrow> bool" where
  "is_RevivalPlan (JObject kvs) =
     (only_fields [''title'', ''description'', ''scriptOutline''] kvs
      \<and> field kvs ''title'' is_string
      \<and> field kvs ''description'' is_string
      \<and> field kvs ''scriptOutline'' is_string)"
| "is_RevivalPlan _ = False"

fun is_RevivalStrategy :: "json \<Rightarrow> bool" where
  "is_RevivalStrategy (JObject kvs) =
     (only_fields [''originalVideoMetadata'', ''segments'', ''outdatedItems'', ''revivalPlan'',
                   ''revivalSummary'', ''predictedViews'', ''predictedEngagement''] kvs
      \<and> opt_field kvs ''originalVideoMetadata'' is_VideoMetadata
      \<and> field kvs ''segments'' (is_array_of is_Segment)
      \<and> field kvs ''outdatedItems'' (is_array_of is_OutdatedItem)
      \<and> opt_field kvs ''revivalPlan'' is_RevivalPlan
      \<and> opt_field kvs ''revivalSummary'' is_string
      \<and> field kvs ''predictedViews'' is_number
      \<and> field kvs ''predictedEngagement'' is_number)"
| "is_RevivalStrategy _ = False"

text \<open>A strategy with two segments and one item that names the indices 0 and 5.\<close>

definition two_segment_strategy :: RevivalStrategy where
  "two_segment_strategy =
     \<lparr>originalVideoMetadata = None,
      segments =
        [\<lparr>startTime = ''00:00'', endTime = ''01:00'', summary = ''Intro'',
          subjects = [''React''], needsUpdate = Some True\<rparr>,
         \<lparr>startTime = ''01:00'', endTime = ''02:00'', summary = ''State'',
          subjects = [], needsUpdate = None\<rparr>],
      outdatedItems =
        [\<lparr>subject = ''State'', oldTool = ''Redux'', newTool = ''Redux Toolkit'',
          reason = ''less code'', impactScore = 8, affectedSegmentIndices = Some [0, 5]\<rparr>],
      revivalPlan = None, revivalSummary = None, predictedViews = 100,
      predictedEngagement = 50\<rparr>"

text \<open>The parts the loop of \<open>generateVisualOverlay\<close> runs over: none when \<open>parts\<close> is undefined.\<close>

definition parts_read :: "response \<Rightarrow> part list" where
  "parts_read r = (case response_parts r of None \<Rightarrow> [] | Some ps \<Rightarrow> ps)"

text \<open>All parts of a response: those of every candidate, in order.\<close>

definition candidate_parts :: "candidate \<Rightarrow> part list" where
  "candidate_parts c =
     (case content c of
        None \<Rightarrow> []
      | Some ct \<Rightarrow> (case parts ct of None \<Rightarrow> [] | Some ps \<Rightarrow> ps))"

definition all_parts :: "response \<Rightarrow> part list" where
  "all_parts r =
     (case candidates r of
        None \<Rightarrow> []
      | Some cs \<Rightarrow> concat (map candidate_parts cs))"

text \<open>A part whose inline data has an image mime type.\<close>

definition is_image_part :: "part \<Rightarrow> bool" where
  "is_image_part p =
     (case inlineData p of
        None \<Rightarrow> False
      | Some b \<Rightarrow> (case mimeType b of None \<Rightarrow> False | Some mime \<Rightarrow> prefix ''image/'' mime))"

text \<open>Inline data, where a part has it, comes with its mime type.\<close>

definition typed_inline_data :: "part \<Rightarrow> bool" where
  "typed_inline_data p =
     (case inlineData p of
        None \<Rightarrow> True
      | Some b \<Rightarrow> mimeType b \<noteq> None)"

text \<open>Two responses: the only image in the second candidate; inline data without mime type.\<close>

definition image_in_second_candidate :: response where
  "image_in_second_candidate =
     \<lparr>candidates = Some
        [\<lparr>content = Some \<lparr>parts = Some [\<lparr>inlineData = None, partText = Some ''done''\<rparr>]\<rparr>\<rparr>,
         \<lparr>content = Some \<lparr>parts = Some
            [\<lparr>inlineData = Some \<lparr>mimeType = Some ''image/png'', data = Some ''AAAA''\<rparr>,
              partText = None\<rparr>]\<rparr>\<rparr>]\<rparr>"

definition untyped_inline_data :: response where
  "untyped_inline_data =
     \<lparr>candidates = Some
        [\<lparr>content = Some \<lparr>parts = Some
            [\<lparr>inlineData = Some \<lparr>mimeType = None, data = Some ''AAAA''\<rparr>,
              partText = None\<rparr>]\<rparr>\<rparr>]\<rparr>"

section \<open>Searching for a marker\<close>

lemma after_first_unfold:
  "after_first n s =
     (if prefix n s then Some (drop (length n) s)
      else case s of [] \<Rightarrow> None | _ # cs \<Rightarrow> after_first n cs)"
  by (cases s) auto

lemma lazy_until_unfold:
  "lazy_until n s =
     (if prefix n s then [] else case s of [] \<Rightarrow> [] | c # cs \<Rightarrow> c # lazy_until n cs)"
  by (cases s) auto

lemma prefix_append_short: "prefix n (s @ e) \<Longrightarrow> length n \<le> length s \<Longrightarrow> prefix n s"
  by (auto simp: prefix_append)

lemma after_first_Some_length: "after_first n s = Some x \<Longrightarrow> length n \<le> length s"
  by (induction s) (auto split: if_splits dest: prefix_length_le)

lemma after_first_here: "after_first n (n @ r) = Some r"
  by (subst after_first_unfold) simp

lemma after_first_extend: "after_first n s = Some x \<Longrightarrow> after_first n (s @ e) = Some (x @ e)"
proof (induction s)
  case Nil then show ?case by (cases e) (auto split: if_splits)
next
  case (Cons c cs)
  show ?case
  proof (cases "prefix n (c # cs)")
    case True
    then have p: "prefix n ((c # cs) @ e)" by (metis prefix_prefix)
    from True have "length n \<le> length (c # cs)" by (rule prefix_length_le)
    then have d: "drop (length n) ((c # cs) @ e) = drop (length n) (c # cs) @ e"
      by (simp only: drop_append) simp
    from True Cons.prems have "x = drop (length n) (c # cs)" by simp
    with p d show ?thesis by (subst after_first_unfold) simp
  next
    case False
    with Cons.prems have x: "after_first n cs = Some x" by simp
    then have "length n \<le> length (c # cs)" using after_first_Some_length by fastforce
    with False have "\<not> prefix n ((c # cs) @ e)" using prefix_append_short by blast
    with x Cons.IH show ?thesis by simp
  qed
qed

lemma after_first_tail: "\<exists>x. after_first n (a @ n @ t) = Some (x @ t)"
proof (induction a)
  case Nil
  show ?case by (simp add: after_first_here)
next
  case (Cons y a)
  show ?case
  proof (cases "prefix n ((y # a) @ n @ t)")
    case True
    have "drop (length n) (((y # a) @ n) @ t) = drop (length n) ((y # a) @ n) @ t"
      by (simp only: drop_append) simp
    then have "after_first n ((y # a) @ n @ t) = Some (drop (length n) ((y # a) @ n) @ t)"
      using True by (subst after_first_unfold) simp
    then show ?thesis by blast
  next
    case False
    with Cons.IH show ?thesis by simp
  qed
qed

lemma after_first_decomp:
  "after_first n s = Some r \<Longrightarrow>
     \<exists>a. s = a @ n @ r \<and> (\<forall>u v. s = u @ n @ v \<longrightarrow> length a \<le> length u)"
proof (induction s)
  case Nil
  then show ?case by (auto split: if_splits)
next
  case (Cons c cs)
  show ?case
  proof (cases "prefix n (c # cs)")
    case True
    with Cons.prems have "r = drop (length n) (c # cs)" by simp
    with True have "c # cs = [] @ n @ r" by (metis append_Nil prefix_def append_eq_conv_conj)
    then show ?thesis by (intro exI [of _ "[]"]) simp
  next
    case False
    with Cons.prems have "after_first n cs = Some r" by simp
    with Cons.IH obtain a where a: "cs = a @ n @ r"
      and m: "\<forall>u v. cs = u @ n @ v \<longrightarrow> length a \<le> length u" by blast
    have "\<forall>u v. c # cs = u @ n @ v \<longrightarrow> length (c # a) \<le> length u"
    proof (intro allI impI)
      fix u v assume e: "c # cs = u @ n @ v"
      show "length (c # a) \<le> length u"
      proof (cases u)
        case Nil
        with e have "prefix n (c # cs)" by (simp add: prefix_def)
        with False show ?thesis by simp
      next
        case (Cons d u')
        with e have "cs = u' @ n @ v" by simp
        with m have "length a \<le> length u'" by blast
        with Cons show ?thesis by simp
      qed
    qed
    with a show ?thesis by (intro exI [of _ "c # a"]) simp
  qed
qed

lemma lazy_until_frozen: "lazy_until n (b @ n @ c @ e) = lazy_until n (b @ n @ c)"
proof (induction b)
  case Nil
  show ?case by (simp add: lazy_until_unfold [of n "n @ _"])
next
  case (Cons x b)
  have "prefix n ((x # b) @ n @ c @ e) \<longleftrightarrow> prefix n ((x # b) @ n @ c)"
  proof
    assume "prefix n ((x # b) @ n @ c @ e)"
    then have "prefix n (((x # b) @ n @ c) @ e)" by simp
    then show "prefix n ((x # b) @ n @ c)" by (rule prefix_append_short) simp
  next
    assume "prefix n ((x # b) @ n @ c)"
    then have "prefix n (((x # b) @ n @ c) @ e)" by (rule prefix_prefix)
    then show "prefix n ((x # b) @ n @ c @ e)" by simp
  qed
  with Cons.IH show ?case by simp
qed

lemma lazy_until_decomp:
  "s = b @ n @ c \<Longrightarrow>
     \<exists>c'. s = lazy_until n s @ n @ c'
        \<and> (\<forall>u v. s = u @ n @ v \<longrightarrow> length (lazy_until n s) \<le> length u)"
proof (induction s arbitrary: b)
  case Nil
  then show ?case by simp
next
  case (Cons x xs)
  show ?case
  proof (cases "prefix n (x # xs)")
    case True
    then obtain c' where e: "x # xs = n @ c'" by (auto simp: prefix_def)
    from True have z: "lazy_until n (x # xs) = []" by simp
    have "x # xs = lazy_until n (x # xs) @ n @ c'" unfolding z using e by simp
    moreover have "\<forall>u v. x # xs = u @ n @ v \<longrightarrow> length (lazy_until n (x # xs)) \<le> length u"
      unfolding z by simp
    ultimately show ?thesis by blast
  next
    case False
    have nb: "u \<noteq> []" if "x # xs = u @ n @ v" for u v
      using that False by (auto simp: prefix_def)
    from Cons.prems nb obtain b' where b': "b = x # b'" by (cases b) auto
    with Cons.prems have "xs = b' @ n @ c" by simp
    with Cons.IH obtain c' where c': "xs = lazy_until n xs @ n @ c'"
      and m: "\<forall>u v. xs = u @ n @ v \<longrightarrow> length (lazy_until n xs) \<le> length u" by blast
    have l: "lazy_until n (x # xs) = x # lazy_until n xs" using False by simp
    have "\<forall>u v. x # xs = u @ n @ v \<longrightarrow> length (lazy_until n (x # xs)) \<le> length u"
    proof (intro allI impI)
      fix u v assume e: "x # xs = u @ n @ v"
      with nb obtain u' where u': "u = x # u'" by (cases u) auto
      with e have "xs = u' @ n @ v" by simp
      with m have "length (lazy_until n xs) \<le> length u'" by blast
      with l u' show "length (lazy_until n (x # xs)) \<le> length u" by simp
    qed
    moreover from c' l have "x # xs = lazy_until n (x # xs) @ n @ c'" by simp
    ultimately show ?thesis by blast
  qed
qed

lemma thinking_match_frozen:
  assumes "s = a @ thinking_open @ b @ thinking_close @ c"
  shows "\<exists>m. \<forall>e. thinking_match (s @ e) = Some m"
proof -
  obtain x where x: "after_first thinking_open s = Some (x @ b @ thinking_close @ c)"
    using after_first_tail [of thinking_open a "b @ thinking_close @ c"] assms by auto
  have "thinking_match (s @ e) = Some (lazy_until thinking_close ((x @ b) @ thinking_close @ c))" for e
  proof -
    have "after_first thinking_open (s @ e) = Some ((x @ b @ thinking_close @ c) @ e)"
      using x by (rule after_first_extend)
    then have "thinking_match (s @ e) = Some (lazy_until thinking_close ((x @ b) @ thinking_close @ c @ e))"
      by (simp add: thinking_match_def)
    then show ?thesis by (simp only: lazy_until_frozen)
  qed
  then show ?thesis by blast
qed

lemma thinking_match_between:
  assumes "thinking_match s = Some m" and "s = a @ thinking_open @ b @ thinking_close @ c"
  shows "\<exists>a' c'. s = a' @ thinking_open @ m @ thinking_close @ c'
           \<and> (\<forall>u v. s = u @ thinking_open @ v \<longrightarrow> length a' \<le> length u)
           \<and> (\<forall>u v. m @ thinking_close @ c' = u @ thinking_close @ v \<longrightarrow> length m \<le> length u)"
proof -
  obtain x where x: "after_first thinking_open s = Some (x @ b @ thinking_close @ c)"
    using after_first_tail [of thinking_open a "b @ thinking_close @ c"] assms by auto
  define r where "r = x @ b @ thinking_close @ c"
  from x r_def obtain a' where a': "s = a' @ thinking_open @ r"
    and ma: "\<forall>u v. s = u @ thinking_open @ v \<longrightarrow> length a' \<le> length u"
    using after_first_decomp [of thinking_open s r] by auto
  from assms x r_def have m: "m = lazy_until thinking_close r" by (simp add: thinking_match_def)
  have "r = (x @ b) @ thinking_close @ c" by (simp add: r_def)
  from lazy_until_decomp [OF this] m obtain c' where c': "r = m @ thinking_close @ c'"
    and mc: "\<forall>u v. r = u @ thinking_close @ v \<longrightarrow> length m \<le> length u" by auto
  from a' c' ma mc show ?thesis by auto
qed


section \<open>The narrative freezes at the closing tag\<close>

lemma append_chunk_extends: "\<exists>e. append_chunk buf chunk = buf @ e"
  by (cases chunk) (auto simp: append_chunk_def)

lemma step_fullText: "fullText (step st chunk) = append_chunk (fullText st) chunk"
  by (simp add: step_def Let_def split: option.splits)

lemma step_matched:
  "thinking_match (append_chunk (fullText st) chunk) = Some m \<Longrightarrow>
     thinkingText (step st chunk) = m \<and> emitted (step st chunk) = emitted st @ [m]"
  by (simp add: step_def Let_def)

lemma stream_loop_append:
  "stream_loop st (xs @ ys) = stream_loop (stream_loop st xs) ys"
  by (induction xs arbitrary: st) auto

lemma stream_loop_snoc:
  "stream_loop st (xs @ [x]) = step (stream_loop st xs) x"
  by (simp add: stream_loop_append)

text \<open>What the loop keeps true: the narrative is the capture of the buffer, when there is one.\<close>

lemma loop_narrative:
  "thinking_match (fullText (stream_loop init_state chunks)) = Some m \<Longrightarrow>
     thinkingText (stream_loop init_state chunks) = m"
proof (induction chunks rule: rev_induct)
  case Nil
  then show ?case by (simp add: init_state_def thinking_match_def thinking_open_def)
next
  case (snoc x xs)
  then show ?case
    by (simp add: stream_loop_snoc step_fullText step_matched)
qed

lemma frozen_loop:
  "\<forall>e. thinking_match (fullText st @ e) = Some m \<Longrightarrow>
     emitted (stream_loop st later) = emitted st @ replicate (length later) m
     \<and> (later \<noteq> [] \<longrightarrow> thinkingText (stream_loop st later) = m)"
proof (induction later arbitrary: st)
  case Nil
  then show ?case by simp
next
  case (Cons x later)
  obtain e where e: "append_chunk (fullText st) x = fullText st @ e"
    using append_chunk_extends by blast
  with Cons.prems have m: "thinking_match (append_chunk (fullText st) x) = Some m" by simp
  have f: "\<forall>e'. thinking_match (fullText (step st x) @ e') = Some m"
    using Cons.prems e by (simp add: step_fullText)
  from Cons.IH [OF f] step_matched [OF m] show ?case
    by (cases later) (auto simp: replicate_app_Cons_same)
qed

text \<open>
  C5. Once the buffer the loop has accumulated holds an opening tag and, after it, a
  closing tag, the narrative is the text \<open>m\<close> strictly between the first opening tag
  and the first closing tag after it, and it stays \<open>m\<close> whatever chunks arrive later:
  each of them emits \<open>m\<close> again.
\<close>

theorem narrative_frozen:
  assumes "fullText (stream_loop init_state chunks) = a @ thinking_open @ b @ thinking_close @ c"
  shows "\<exists>a' m c'.
           fullText (stream_loop init_state chunks) = a' @ thinking_open @ m @ thinking_close @ c'
         \<and> (\<forall>u v. fullText (stream_loop init_state chunks) = u @ thinking_open @ v
                \<longrightarrow> length a' \<le> length u)
         \<and> (\<forall>u v. m @ thinking_close @ c' = u @ thinking_close @ v \<longrightarrow> length m \<le> length u)
         \<and> (\<forall>later. thinkingText (stream_loop init_state (chunks @ later)) = m
                \<and> emitted (stream_loop init_state (chunks @ later))
                    = emitted (stream_loop init_state chunks) @ replicate (length later) m)"
proof -
  define st where "st = stream_loop init_state chunks"
  from assms obtain m where m: "\<forall>e. thinking_match (fullText st @ e) = Some m"
    using thinking_match_frozen unfolding st_def by blast
  then have m0: "thinking_match (fullText st) = Some m" by (metis append_Nil2)
  then have t: "thinkingText st = m" unfolding st_def by (rule loop_narrative)
  from thinking_match_between [OF m0] assms obtain a' c' where
    d: "fullText st = a' @ thinking_open @ m @ thinking_close @ c'"
    and fa: "\<forall>u v. fullText st = u @ thinking_open @ v \<longrightarrow> length a' \<le> length u"
    and fc: "\<forall>u v. m @ thinking_close @ c' = u @ thinking_close @ v \<longrightarrow> length m \<le> length u"
    unfolding st_def by blast
  have "thinkingText (stream_loop init_state (chunks @ later)) = m
        \<and> emitted (stream_loop init_state (chunks @ later)) = emitted st @ replicate (length later) m"
    for later
    using frozen_loop [OF m, of later] t
    by (cases later) (auto simp: stream_loop_append st_def)
  with d fa fc show ?thesis unfolding st_def by blast
qed


lemmas loop_eval =
  step_def append_chunk_def thinking_match_def thinking_open_def thinking_close_def
  includes_js_def split_1_def init_state_def Let_def

theorem narrative_frozen_witness:
  "fullText (stream_loop init_state [Some ''<thinking>ab'', Some ''c</thinking>x''])
     = [] @ thinking_open @ ''abc'' @ thinking_close @ ''x''
   \<and> thinkingText (stream_loop init_state
         ([Some ''<thinking>ab'', Some ''c</thinking>x''] @ [Some ''</thinking><thinking>z'', None]))
       = ''abc''
   \<and> emitted (stream_loop init_state
         ([Some ''<thinking>ab'', Some ''c</thinking>x''] @ [Some ''</thinking><thinking>z'', None]))
       = [''ab'', ''abc'', ''abc'', ''abc'']"
proof -
  let ?chunks = "[Some ''<thinking>ab'', Some ''c</thinking>x'']"
  let ?later = "[Some ''</thinking><thinking>z'', None]"
  have h: "fullText (stream_loop init_state ?chunks)
             = [] @ thinking_open @ ''abc'' @ thinking_close @ ''x''"
    by (simp add: loop_eval)
  have e: "emitted (stream_loop init_state ?chunks) = [''ab'', ''abc'']"
    by (simp add: loop_eval)
  have t: "thinkingText (stream_loop init_state ?chunks) = ''abc''"
    by (simp add: loop_eval)
  from narrative_frozen [OF h] obtain m where
    m: "\<forall>later. thinkingText (stream_loop init_state (?chunks @ later)) = m
          \<and> emitted (stream_loop init_state (?chunks @ later))
              = emitted (stream_loop init_state ?chunks) @ replicate (length later) m"
    by blast
  from m [rule_format, of "[]"] t have "m = ''abc''" by simp
  with m [rule_format, of ?later] e h show ?thesis by (simp del: stream_loop.simps)
qed


section \<open>The fence expression without backtracking\<close>

text \<open>
  A backquote is no white space, so giving back white space never helps: the greedy
  \<open>\s*\<close> can be read as skipping the whole run.
\<close>

lemma not_space_backquote: "\<not> is_space (CHR ''`'')"
  by (simp add: is_space_def)

lemma prefix_fence_space: "is_space c \<Longrightarrow> \<not> prefix fence (c # cs)"
  using not_space_backquote by (auto simp: fence_def)

lemma greedy_ws_fence:
  "greedy_ws (\<lambda>t. if prefix fence t then Some x else None) s
     = (if prefix fence (dropWhile is_space s) then Some x else None)"
  by (induction s) (auto simp: prefix_fence_space)

lemma ws_fence_eq: "ws_fence s = prefix fence (dropWhile is_space s)"
  by (simp add: ws_fence_def greedy_ws_fence)

lemma ws_fence_Nil: "\<not> ws_fence []"
  by (simp add: ws_fence_eq fence_def)

lemma ws_fence_space: "is_space c \<Longrightarrow> ws_fence (c # cs) = ws_fence cs"
  by (simp add: ws_fence_eq)

lemma ws_fence_lazy_block: "ws_fence s \<Longrightarrow> lazy_block s = Some []"
  by (cases s) (auto simp: ws_fence_Nil)

lemma lazy_block_skip_None:
  "lazy_block (dropWhile is_space s) = None \<Longrightarrow> lazy_block s = None"
proof (induction s)
  case Nil
  then show ?case by simp
next
  case (Cons c cs)
  show ?case
  proof (cases "is_space c")
    case True
    with Cons have n: "lazy_block cs = None" and d: "lazy_block (dropWhile is_space cs) = None"
      by simp_all
    have "\<not> ws_fence (dropWhile is_space cs)"
      using d ws_fence_lazy_block by fastforce
    then have "\<not> ws_fence (c # cs)" using True by (simp add: ws_fence_eq)
    with n show ?thesis by simp
  next
    case False
    with Cons.prems show ?thesis by simp
  qed
qed

lemma greedy_ws_lazy_block: "greedy_ws lazy_block s = lazy_block (dropWhile is_space s)"
proof (induction s)
  case Nil
  show ?case by simp
next
  case (Cons c cs)
  show ?case
  proof (cases "is_space c")
    case True
    show ?thesis
    proof (cases "lazy_block (dropWhile is_space cs)")
      case None
      then have "lazy_block (dropWhile is_space (c # cs)) = None" using True by simp
      then have "lazy_block (c # cs) = None" by (rule lazy_block_skip_None)
      with None True Cons.IH show ?thesis by simp
    next
      case (Some cap)
      with True Cons.IH show ?thesis by simp
    qed
  next
    case False
    then show ?thesis by simp
  qed
qed

lemma fence_here_eq:
  "fence_here s =
     (if prefix fence s then
        (let r = drop 3 s;
             tagged = (if json_tag r then lazy_block (dropWhile is_space (drop 4 r)) else None)
         in case tagged of
              Some cap \<Rightarrow> Some cap
            | None \<Rightarrow> lazy_block (dropWhile is_space r))
      else None)"
  by (simp add: fence_here_def greedy_ws_lazy_block Let_def)

section \<open>The end-to-end scenario\<close>

lemma scenario_loop:
  "stream_loop init_state scenario =
     \<lparr>fullText = ''<thinking>Step 1... Step 2.</thinking>```json'' @ [CHR 0x0A] @ payload_text
                   @ [CHR 0x0A] @ ''```'',
      thinkingText = ''Step 1... Step 2.'',
      emitted = [''Step 1...'', ''Step 1... Step 2.'', ''Step 1... Step 2.'']\<rparr>"
  by (simp add: scenario_def loop_eval)

lemma scenario_emitted:
  "emitted (stream_loop init_state scenario)
     = [''Step 1...'', ''Step 1... Step 2.'', ''Step 1... Step 2.'']"
  by (simp only: scenario_loop stream_state.simps)

lemma scenario_fence:
  "fence_match (fullText (stream_loop init_state scenario)) = Some payload_text"
  unfolding scenario_loop
  by (simp add: payload_text_def fence_here_eq fence_def json_tag_def ws_fence_eq
        is_space_def Let_def)

lemma scenario_parse:
  "json_parse payload_text =
     Some (JObject [(''segments'', JArray [] []), (''outdatedItems'', JArray [] []),
                    (''predictedViews'', JNumber 100), (''predictedEngagement'', JNumber 50)])"
  unfolding payload_text_def by code_simp

lemma scenario_post:
  "unwrap_and_repair
     (JObject [(''segments'', JArray [] []), (''outdatedItems'', JArray [] []),
               (''predictedViews'', JNumber 100), (''predictedEngagement'', JNumber 50)])
   = Inr (JObject [(''segments'', JArray [] []), (''outdatedItems'', JArray [] []),
                   (''predictedViews'', JNumber 100), (''predictedEngagement'', JNumber 50),
                   (''originalVideoMetadata'', default_metadata)])"
  by (simp add: unwrap_and_repair_def unwrap_def repair_def)

text \<open>
  C1. With a key in the environment and a \<open>JSON.parse\<close> that reads the payload text as
  the object it denotes, the four fragments of the scenario make the callback see
  \<open>Step 1...\<close>, then \<open>Step 1... Step 2.\<close>, then \<open>Step 1... Step 2.\<close> again, and the
  function returns the payload's four properties, \<open>segments\<close> and \<open>outdatedItems\<close>
  empty, \<open>predictedViews\<close> 100 and \<open>predictedEngagement\<close> 50, followed by the default
  \<open>originalVideoMetadata\<close>.
\<close>

theorem end_to_end_scenario:
  assumes "apiKey \<noteq> None" and "apiKey \<noteq> Some []"
    and "parse payload_text =
           Some (JObject [(''segments'', JArray [] []), (''outdatedItems'', JArray [] []),
                          (''predictedViews'', JNumber 100), (''predictedEngagement'', JNumber 50)])"
  shows "analyzeVideoAndCreateRevivalPlan parse apiKey (scenario, None) =
           ([''Step 1...'', ''Step 1... Step 2.'', ''Step 1... Step 2.''],
            Inr (JObject [(''segments'', JArray [] []), (''outdatedItems'', JArray [] []),
                          (''predictedViews'', JNumber 100), (''predictedEngagement'', JNumber 50),
                          (''originalVideoMetadata'',
                           JObject [(''title'', JString ''Unknown Title''),
                                    (''publishDate'', JString ''Unknown Date''),
                                    (''currentViews'', JNumber 0)])]))"
  using assms
  by (simp add: analyzeVideoAndCreateRevivalPlan_def scenario_emitted finalize_def scenario_fence
        scenario_post default_metadata_def Let_def del: stream_loop.simps)

theorem end_to_end_scenario_witness:
  "analyzeVideoAndCreateRevivalPlan json_parse (Some ''key'') (scenario, None) =
     ([''Step 1...'', ''Step 1... Step 2.'', ''Step 1... Step 2.''],
      Inr (JObject [(''segments'', JArray [] []), (''outdatedItems'', JArray [] []),
                    (''predictedViews'', JNumber 100), (''predictedEngagement'', JNumber 50),
                    (''originalVideoMetadata'',
                     JObject [(''title'', JString ''Unknown Title''),
                              (''publishDate'', JString ''Unknown Date''),
                              (''currentViews'', JNumber 0)])]))"
  using end_to_end_scenario [where apiKey = "Some ''key''" and parse = json_parse] scenario_parse
  by simp

section \<open>No fenced block\<close>

lemma ws_fence_decomp: "ws_fence s \<Longrightarrow> \<exists>w r. s = w @ fence @ r"
proof -
  assume "ws_fence s"
  then obtain r where "dropWhile is_space s = fence @ r"
    by (auto simp: ws_fence_eq prefix_def)
  then have "s = takeWhile is_space s @ fence @ r"
    by (metis takeWhile_dropWhile_id)
  then show ?thesis by blast
qed

lemma lazy_block_decomp: "lazy_block s = Some cap \<Longrightarrow> \<exists>w r. s = cap @ w @ fence @ r"
proof (induction s arbitrary: cap)
  case Nil
  then show ?case by (simp add: ws_fence_Nil)
next
  case (Cons x xs)
  show ?case
  proof (cases "ws_fence (x # xs)")
    case True
    with Cons.prems have "cap = []" by simp
    with ws_fence_decomp [OF True] show ?thesis by simp
  next
    case False
    with Cons.prems obtain cap' where c: "lazy_block xs = Some cap'" and "cap = x # cap'"
      by auto
    with Cons.IH [OF c] show ?thesis by auto
  qed
qed

lemma drop_space_suffix: "\<exists>w. s = w @ dropWhile is_space s"
  by (metis takeWhile_dropWhile_id)

lemma lazy_block_after_space:
  assumes "lazy_block (dropWhile is_space s) = Some cap"
  shows "\<exists>b c. s = b @ fence @ c"
proof -
  from lazy_block_decomp [OF assms] obtain w r where "dropWhile is_space s = cap @ w @ fence @ r"
    by blast
  moreover obtain w' where "s = w' @ dropWhile is_space s" using drop_space_suffix by blast
  ultimately have "s = (w' @ cap @ w) @ fence @ r" by simp
  then show ?thesis by blast
qed

lemma fence_here_decomp:
  assumes "fence_here s = Some cap"
  shows "\<exists>b c. s = fence @ b @ fence @ c"
proof -
  from assms have p: "prefix fence s" by (auto simp: fence_here_eq split: if_splits)
  then have s: "s = fence @ drop 3 s" by (auto simp: prefix_def fence_def)
  from assms p consider
      (tagged) "lazy_block (dropWhile is_space (drop 4 (drop 3 s))) = Some cap"
    | (plain) "lazy_block (dropWhile is_space (drop 3 s)) = Some cap"
    by (auto simp: fence_here_eq Let_def split: if_splits option.splits)
  then obtain b c where "drop 3 s = b @ fence @ c"
  proof cases
    case tagged
    from lazy_block_after_space [OF tagged] obtain b c where "drop 4 (drop 3 s) = b @ fence @ c"
      by blast
    then have "drop 3 s = (take 4 (drop 3 s) @ b) @ fence @ c"
      by (metis append_take_drop_id append_assoc)
    then show ?thesis using that by blast
  next
    case plain
    from lazy_block_after_space [OF plain] show ?thesis using that by blast
  qed
  with s have "s = fence @ b @ fence @ c" by simp
  then show ?thesis by blast
qed

lemma fence_match_decomp:
  "fence_match s = Some cap \<Longrightarrow> \<exists>a b c. s = a @ fence @ b @ fence @ c"
proof (induction s)
  case Nil
  then show ?case by simp
next
  case (Cons x xs)
  show ?case
  proof (cases "fence_here (x # xs)")
    case (Some cap')
    from fence_here_decomp [OF Some] obtain b c where "x # xs = [] @ fence @ b @ fence @ c"
      by auto
    then show ?thesis by blast
  next
    case None
    with Cons.prems have "fence_match xs = Some cap" by simp
    with Cons.IH obtain a b c where "xs = a @ fence @ b @ fence @ c" by blast
    then have "x # xs = (x # a) @ fence @ b @ fence @ c" by simp
    then show ?thesis by blast
  qed
qed

text \<open>
  C2. A buffer that does not hold two fences, one after the other, makes finalization
  fail with the error of line 118, whatever \<open>JSON.parse\<close> would do: no value is returned.
\<close>

theorem no_block_fails:
  assumes "\<not> (\<exists>a b c. text = a @ fence @ b @ fence @ c)"
  shows "finalize parse text = Inl NoJsonBlock"
proof -
  from assms fence_match_decomp have "fence_match text = None"
    by (cases "fence_match text") auto
  then show ?thesis by (simp add: finalize_def)
qed


theorem no_block_fails_witness:
  "\<not> (\<exists>a b c. ''<thinking>x</thinking> one ``` only'' = a @ fence @ b @ fence @ c)
   \<and> finalize json_parse ''<thinking>x</thinking> one ``` only'' = Inl NoJsonBlock"
proof -
  let ?t = "''<thinking>x</thinking> one ``` only''"
  let ?n = "\<lambda>s. length (filter (\<lambda>x. x = CHR ''`'') s)"
  have h: "\<not> (\<exists>a b c. ?t = a @ fence @ b @ fence @ c)"
  proof
    assume "\<exists>a b c. ?t = a @ fence @ b @ fence @ c"
    then obtain a b c where e: "?t = a @ fence @ b @ fence @ c" by blast
    have "6 \<le> ?n (a @ fence @ b @ fence @ c)" by (simp add: fence_def)
    moreover have "?n ?t = 3" by simp
    ultimately show False using arg_cong [OF e, of ?n] by linarith
  qed
  from no_block_fails [OF h] h show ?thesis by blast
qed

text \<open>The converse: two fences, one after the other, always give a match.\<close>

lemma ws_fence_at_fence: "ws_fence (fence @ c)"
  by (simp add: ws_fence_eq fence_def not_space_backquote)

lemma lazy_block_complete: "lazy_block (x @ fence @ c) \<noteq> None"
proof (induction x)
  case Nil
  have "lazy_block (fence @ c) = Some []"
    using ws_fence_at_fence [of c] by (simp add: fence_def)
  then show ?case by simp
next
  case (Cons y x)
  then show ?case by simp
qed

lemma dropWhile_keeps_fence: "\<exists>x'. dropWhile is_space (x @ fence @ c) = x' @ fence @ c"
proof (induction x)
  case Nil
  have "dropWhile is_space (fence @ c) = [] @ fence @ c"
    by (simp add: fence_def not_space_backquote)
  then show ?case by (metis append_Nil)
next
  case (Cons y x)
  show ?case
  proof (cases "is_space y")
    case True
    with Cons.IH show ?thesis by simp
  next
    case False
    then have "dropWhile is_space ((y # x) @ fence @ c) = (y # x) @ fence @ c" by simp
    then show ?thesis by blast
  qed
qed

lemma lazy_block_after_space_complete: "lazy_block (dropWhile is_space (x @ fence @ c)) \<noteq> None"
  using dropWhile_keeps_fence [of x c] lazy_block_complete by metis

lemma fence_here_complete: "fence_here (fence @ b @ fence @ c) \<noteq> None"
proof -
  have "drop 3 (fence @ b @ fence @ c) = b @ fence @ c" by (simp add: fence_def)
  moreover have "prefix fence (fence @ b @ fence @ c)" by simp
  ultimately show ?thesis
    using lazy_block_after_space_complete [of b c]
    by (auto simp: fence_here_eq Let_def split: option.splits)
qed

lemma fence_match_complete: "fence_match (a @ fence @ b @ fence @ c) \<noteq> None"
proof (induction a)
  case Nil
  have "fence @ b @ fence @ c = CHR ''`'' # tl (fence @ b @ fence @ c)" by (simp add: fence_def)
  then have "fence_match (fence @ b @ fence @ c)
               = (case fence_here (fence @ b @ fence @ c) of
                    Some cap \<Rightarrow> Some cap | None \<Rightarrow> fence_match (tl (fence @ b @ fence @ c)))"
    by (metis fence_match.simps(2))
  with fence_here_complete [of b c] show ?case by (auto split: option.splits)
next
  case (Cons y a)
  then show ?case by (auto split: option.splits)
qed

section \<open>Unwrapping and repair\<close>

lemma update_absent: "map_of kvs k = None \<Longrightarrow> AList.update k v kvs = kvs @ [(k, v)]"
  by (induction kvs) (auto split: if_splits)

lemma only_fields_absent:
  "only_fields names kvs \<Longrightarrow> k \<notin> set names \<Longrightarrow> map_of kvs k = None"
proof -
  assume o: "only_fields names kvs" and k: "k \<notin> set names"
  have "k \<notin> fst ` set kvs"
  proof
    assume "k \<in> fst ` set kvs"
    with o have "k \<in> set names" by (auto simp: only_fields_def list_all_iff)
    with k show False by simp
  qed
  then show ?thesis by (simp add: map_of_eq_None_iff)
qed

lemma well_formed_no_wrapper:
  assumes "is_RevivalStrategy (JObject kvs)"
  shows "map_of kvs ''RevivalStrategy'' = None" and "map_of kvs ''revivalStrategy'' = None"
proof -
  let ?names = "[''originalVideoMetadata'', ''segments'', ''outdatedItems'', ''revivalPlan'',
                 ''revivalSummary'', ''predictedViews'', ''predictedEngagement'']"
  from assms have o: "only_fields ?names kvs" by simp
  show "map_of kvs ''RevivalStrategy'' = None" by (rule only_fields_absent [OF o]) simp
  show "map_of kvs ''revivalStrategy'' = None" by (rule only_fields_absent [OF o]) simp
qed

text \<open>
  What the steps do on the other shapes \<open>JSON.parse\<close> can return: an array receives
  the property like an object, a primitive cannot (the assignment throws in strict
  code), and \<open>null\<close> fails at the first property read.
\<close>

lemma repair_array:
  "map_of ps ''originalVideoMetadata'' = None \<Longrightarrow>
     repair (JArray es ps) = Inr (JArray es (ps @ [(''originalVideoMetadata'', default_metadata)]))"
  by (simp add: repair_def update_absent)

lemma repair_primitive:
  "repair (JNumber n) = Inl TypeError"
  "repair (JString str) = Inl TypeError"
  "repair (JBool b) = Inl TypeError"
  by (simp_all add: repair_def)

lemma unwrap_null: "unwrap JNull = Inl TypeError"
  by (simp add: unwrap_def)

lemma unwrap_and_repair_errors: "unwrap_and_repair p = Inl e \<Longrightarrow> e = TypeError"
proof -
  have g: "get_prop v k = Inl e' \<Longrightarrow> e' = TypeError" for v k e'
    by (cases v) auto
  have s: "set_prop v k x = Inl e' \<Longrightarrow> e' = TypeError" for v k x e'
    by (cases v) auto
  assume "unwrap_and_repair p = Inl e"
  then show ?thesis
    by (auto simp: unwrap_and_repair_def unwrap_def repair_def
          split: sum.splits if_splits dest: g s)
qed

text \<open>
  C3. For a well-formed \<open>RevivalStrategy\<close> payload \<open>X\<close>, the steps after parsing give
  the same result on \<open>{"RevivalStrategy": X}\<close>, on \<open>{"revivalStrategy": X}\<close> and on
  \<open>X\<close> itself: the repair of \<open>X\<close>, which succeeds.
\<close>

theorem wrapper_unwrap_equivalent:
  assumes "is_RevivalStrategy X"
  shows "unwrap_and_repair (JObject [(''RevivalStrategy'', X)]) = unwrap_and_repair X
       \<and> unwrap_and_repair (JObject [(''revivalStrategy'', X)]) = unwrap_and_repair X
       \<and> unwrap_and_repair X = repair X
       \<and> (\<exists>Y. repair X = Inr Y)"
proof -
  from assms obtain kvs where X: "X = JObject kvs" by (cases X) auto
  from assms X have n: "map_of kvs ''RevivalStrategy'' = None" "map_of kvs ''revivalStrategy'' = None"
    using well_formed_no_wrapper by auto
  have u: "unwrap X = Inr X" using n by (simp add: X unwrap_def)
  have "unwrap (JObject [(''RevivalStrategy'', X)]) = Inr X" by (simp add: X unwrap_def)
  moreover have "unwrap (JObject [(''revivalStrategy'', X)]) = Inr X" by (simp add: X unwrap_def)
  moreover have "\<exists>Y. repair X = Inr Y" by (simp add: X repair_def)
  ultimately show ?thesis using u by (simp add: unwrap_and_repair_def)
qed

theorem wrapper_unwrap_equivalent_witness:
  "is_RevivalStrategy
     (JObject [(''segments'', JArray [] []), (''outdatedItems'', JArray [] []),
               (''predictedViews'', JNumber 100), (''predictedEngagement'', JNumber 50)])
   \<and> unwrap_and_repair
       (JObject [(''RevivalStrategy'',
          JObject [(''segments'', JArray [] []), (''outdatedItems'', JArray [] []),
                   (''predictedViews'', JNumber 100), (''predictedEngagement'', JNumber 50)])])
     = unwrap_and_repair
         (JObject [(''segments'', JArray [] []), (''outdatedItems'', JArray [] []),
                   (''predictedViews'', JNumber 100), (''predictedEngagement'', JNumber 50)])
   \<and> unwrap_and_repair
       (JObject [(''revivalStrategy'',
          JObject [(''segments'', JArray [] []), (''outdatedItems'', JArray [] []),
                   (''predictedViews'', JNumber 100), (''predictedEngagement'', JNumber 50)])])
     = unwrap_and_repair
         (JObject [(''segments'', JArray [] []), (''outdatedItems'', JArray [] []),
                   (''predictedViews'', JNumber 100), (''predictedEngagement'', JNumber 50)])"
proof -
  let ?X = "JObject [(''segments'', JArray [] []), (''outdatedItems'', JArray [] []),
               (''predictedViews'', JNumber 100), (''predictedEngagement'', JNumber 50)]"
  have h: "is_RevivalStrategy ?X"
    by (simp add: only_fields_def field_def opt_field_def)
  from wrapper_unwrap_equivalent [OF h] h show ?thesis by blast
qed

text \<open>
  C4, as stated, fails on a payload that is a primitive: the block \<open>42\<close> parses to a
  number, which has no property \<open>originalVideoMetadata\<close>, and the assignment of line 140
  throws a TypeError instead of repairing.
\<close>

theorem metadata_repair_counterexample:
  "json_parse ''42'' = Some (JNumber 42)
   \<and> get_prop (JNumber 42) ''originalVideoMetadata'' = Inr None
   \<and> unwrap_and_repair (JNumber 42) = Inl TypeError
   \<and> finalize json_parse ''```json 42 ```'' = Inl TypeError"
proof -
  have f: "fence_match ''```json 42 ```'' = Some ''42''"
    by (simp add: fence_here_eq fence_def json_tag_def ws_fence_eq is_space_def Let_def)
  have p: "json_parse ''42'' = Some (JNumber 42)" by code_simp
  have r: "unwrap_and_repair (JNumber 42) = Inl TypeError"
    by (simp add: unwrap_and_repair_def unwrap_def repair_def)
  have "finalize json_parse ''```json 42 ```'' = Inl TypeError"
    by (simp only: finalize_def f p r option.case)
  with p r show ?thesis by simp
qed

text \<open>
  C4, amended. When the payload, as it stands after unwrapping, is an object or an array
  without the property \<open>originalVideoMetadata\<close>, the steps after parsing succeed and
  return the same properties in the same order (and, for an array, the same elements),
  followed by \<open>originalVideoMetadata\<close> with the value
  \<open>{title: "Unknown Title", publishDate: "Unknown Date", currentViews: 0}\<close>; so does
  finalization on every buffer whose block parses to that payload.
\<close>

theorem metadata_repair:
  "(unwrap parsedData = Inr (JObject kvs) \<and> map_of kvs ''originalVideoMetadata'' = None \<longrightarrow>
      unwrap_and_repair parsedData =
        Inr (JObject (kvs @ [(''originalVideoMetadata'',
               JObject [(''title'', JString ''Unknown Title''),
                        (''publishDate'', JString ''Unknown Date''),
                        (''currentViews'', JNumber 0)])]))
      \<and> (\<forall>parse text jsonStr.
            fence_match text = Some jsonStr \<and> parse jsonStr = Some parsedData \<longrightarrow>
            finalize parse text =
              Inr (JObject (kvs @ [(''originalVideoMetadata'',
                     JObject [(''title'', JString ''Unknown Title''),
                              (''publishDate'', JString ''Unknown Date''),
                              (''currentViews'', JNumber 0)])]))))
   \<and> (unwrap parsedData = Inr (JArray es kvs) \<and> map_of kvs ''originalVideoMetadata'' = None \<longrightarrow>
      unwrap_and_repair parsedData =
        Inr (JArray es (kvs @ [(''originalVideoMetadata'',
               JObject [(''title'', JString ''Unknown Title''),
                        (''publishDate'', JString ''Unknown Date''),
                        (''currentViews'', JNumber 0)])]))
      \<and> (\<forall>parse text jsonStr.
            fence_match text = Some jsonStr \<and> parse jsonStr = Some parsedData \<longrightarrow>
            finalize parse text =
              Inr (JArray es (kvs @ [(''originalVideoMetadata'',
                     JObject [(''title'', JString ''Unknown Title''),
                              (''publishDate'', JString ''Unknown Date''),
                              (''currentViews'', JNumber 0)])]))))"
proof -
  have o: "repair (JObject kvs) = Inr (JObject (kvs @ [(''originalVideoMetadata'', default_metadata)]))"
    if "map_of kvs ''originalVideoMetadata'' = None"
    using that by (simp add: repair_def update_absent)
  have a: "repair (JArray es kvs) = Inr (JArray es (kvs @ [(''originalVideoMetadata'', default_metadata)]))"
    if "map_of kvs ''originalVideoMetadata'' = None"
    using that by (rule repair_array)
  show ?thesis
    using o a by (auto simp: unwrap_and_repair_def finalize_def default_metadata_def)
qed

theorem metadata_repair_witness:
  "unwrap_and_repair
     (JObject [(''revivalStrategy'',
        JObject [(''segments'', JArray [JNumber 1] []), (''predictedViews'', JNumber 7)])])
     = Inr (JObject [(''segments'', JArray [JNumber 1] []), (''predictedViews'', JNumber 7),
                     (''originalVideoMetadata'',
                      JObject [(''title'', JString ''Unknown Title''),
                               (''publishDate'', JString ''Unknown Date''),
                               (''currentViews'', JNumber 0)])])
   \<and> unwrap_and_repair (JArray [JNumber 1] [])
     = Inr (JArray [JNumber 1]
              [(''originalVideoMetadata'',
                JObject [(''title'', JString ''Unknown Title''),
                         (''publishDate'', JString ''Unknown Date''),
                         (''currentViews'', JNumber 0)])])"
proof -
  let ?kvs = "[(''segments'', JArray [JNumber 1] []), (''predictedViews'', JNumber 7)]"
  have u: "unwrap (JObject [(''revivalStrategy'', JObject ?kvs)]) = Inr (JObject ?kvs)"
    by (simp add: unwrap_def)
  have a: "map_of ?kvs ''originalVideoMetadata'' = None" by simp
  have 1: "unwrap_and_repair (JObject [(''revivalStrategy'', JObject ?kvs)])
             = Inr (JObject (?kvs @ [(''originalVideoMetadata'',
                      JObject [(''title'', JString ''Unknown Title''),
                               (''publishDate'', JString ''Unknown Date''),
                               (''currentViews'', JNumber 0)])]))"
    using metadata_repair [of "JObject [(''revivalStrategy'', JObject ?kvs)]" ?kvs] u a
    by blast
  have v: "unwrap (JArray [JNumber 1] []) = Inr (JArray [JNumber 1] [])"
    by (simp add: unwrap_def)
  have b: "map_of ([] :: (string \<times> json) list) ''originalVideoMetadata'' = None" by simp
  have 2: "unwrap_and_repair (JArray [JNumber 1] [])
             = Inr (JArray [JNumber 1] ([] @ [(''originalVideoMetadata'',
                      JObject [(''title'', JString ''Unknown Title''),
                               (''publishDate'', JString ''Unknown Date''),
                               (''currentViews'', JNumber 0)])]))"
    using metadata_repair [of "JArray [JNumber 1] []" "[]" "[JNumber 1]"] v b
    by blast
  from 1 2 show ?thesis by simp
qed

section \<open>Which wrapper is unwrapped\<close>

text \<open>
  C9. For a parsed object, whatever other properties it has: a truthy value under
  \<open>RevivalStrategy\<close> is selected, also when \<open>revivalStrategy\<close> holds a truthy value
  too; when the value under \<open>RevivalStrategy\<close> is falsy or absent, a truthy value under
  \<open>revivalStrategy\<close> is selected; when both are falsy or absent the object itself is
  kept. \<open>null\<close>, \<open>0\<close>, the empty string and \<open>false\<close> are falsy.
\<close>

theorem unwrap_selection:
  "(map_of kvs ''RevivalStrategy'' = Some a \<and> truthy a
      \<and> map_of kvs ''revivalStrategy'' = Some b \<and> truthy b
      \<longrightarrow> unwrap (JObject kvs) = Inr a)
   \<and> (map_of kvs ''RevivalStrategy'' = Some a \<and> truthy a \<longrightarrow> unwrap (JObject kvs) = Inr a)
   \<and> (\<not> truthy_opt (map_of kvs ''RevivalStrategy'')
        \<and> map_of kvs ''revivalStrategy'' = Some b \<and> truthy b
      \<longrightarrow> unwrap (JObject kvs) = Inr b)
   \<and> (\<not> truthy_opt (map_of kvs ''RevivalStrategy'')
        \<and> \<not> truthy_opt (map_of kvs ''revivalStrategy'')
      \<longrightarrow> unwrap (JObject kvs) = Inr (JObject kvs))
   \<and> \<not> truthy JNull \<and> \<not> truthy (JNumber 0) \<and> \<not> truthy (JString []) \<and> \<not> truthy (JBool False)"
  by (auto simp: unwrap_def)

theorem unwrap_selection_witness:
  "unwrap (JObject [(''note'', JString ''x''), (''revivalStrategy'', JObject [(''b'', JNull)]),
                    (''RevivalStrategy'', JObject [(''a'', JNull)])])
     = Inr (JObject [(''a'', JNull)])
   \<and> unwrap (JObject [(''RevivalStrategy'', JNumber 0), (''revivalStrategy'', JObject [(''b'', JNull)]),
                      (''segments'', JArray [] [])])
     = Inr (JObject [(''b'', JNull)])
   \<and> unwrap (JObject [(''RevivalStrategy'', JNull), (''revivalStrategy'', JString []),
                      (''segments'', JArray [] [])])
     = Inr (JObject [(''RevivalStrategy'', JNull), (''revivalStrategy'', JString []),
                     (''segments'', JArray [] [])])"
proof -
  let ?k1 = "[(''note'', JString ''x''), (''revivalStrategy'', JObject [(''b'', JNull)]),
              (''RevivalStrategy'', JObject [(''a'', JNull)])]"
  let ?k2 = "[(''RevivalStrategy'', JNumber 0), (''revivalStrategy'', JObject [(''b'', JNull)]),
              (''segments'', JArray [] [])]"
  let ?k3 = "[(''RevivalStrategy'', JNull), (''revivalStrategy'', JString []),
              (''segments'', JArray [] [])]"
  have 1: "unwrap (JObject ?k1) = Inr (JObject [(''a'', JNull)])"
    using unwrap_selection [of ?k1 "JObject [(''a'', JNull)]" "JObject [(''b'', JNull)]"] by simp
  have 2: "unwrap (JObject ?k2) = Inr (JObject [(''b'', JNull)])"
    using unwrap_selection [of ?k2 JNull "JObject [(''b'', JNull)]"] by simp
  have 3: "unwrap (JObject ?k3) = Inr (JObject ?k3)"
    using unwrap_selection [of ?k3 JNull JNull] by simp
  from 1 2 3 show ?thesis by blast
qed

section \<open>Segment indices on the dashboard\<close>

lemma rendered_links_filter:
  "rendered_links segs item =
     map (\<lambda>i. \<lparr>link_key = i, link_segment = segs ! nat i\<rparr>)
       (filter (\<lambda>i. 0 \<le> i \<and> i < int (length segs)) (indices_or_empty item))"
proof -
  have "concat (map (\<lambda>l. case l of None \<Rightarrow> [] | Some x \<Rightarrow> [x]) (map (render_segment segs) xs))
        = map (\<lambda>i. \<lparr>link_key = i, link_segment = segs ! nat i\<rparr>)
            (filter (\<lambda>i. 0 \<le> i \<and> i < int (length segs)) xs)" for xs
    by (induction xs) (auto simp: render_segment_def array_get_def)
  then show ?thesis by (simp add: rendered_links_def impacted_segments_def)
qed

text \<open>
  C6. On a strategy with two segments, an item whose \<open>affectedSegmentIndices\<close> is
  \<open>[0, 5]\<close> renders one link, for index 0, and \<open>null\<close> for index 5. In general an
  index outside the segments renders \<open>null\<close>, an index inside renders the link of its
  segment, and the links of an item are those of its indices that are inside, in order.
  No case raises: the lookup is total.
\<close>

theorem out_of_range_index_skipped:
  "(length (segments strategy) = 2 \<and> affectedSegmentIndices item = Some [0, 5] \<longrightarrow>
      impacted_segments (segments strategy) item
        = [Some \<lparr>link_key = 0, link_segment = segments strategy ! 0\<rparr>, None]
      \<and> rendered_links (segments strategy) item
        = [\<lparr>link_key = 0, link_segment = segments strategy ! 0\<rparr>])
   \<and> (i < 0 \<or> int (length (segments strategy)) \<le> i \<longrightarrow>
        render_segment (segments strategy) i = None)
   \<and> (0 \<le> i \<and> i < int (length (segments strategy)) \<longrightarrow>
        render_segment (segments strategy) i
          = Some \<lparr>link_key = i, link_segment = segments strategy ! nat i\<rparr>)
   \<and> rendered_links (segments strategy) item =
        map (\<lambda>i. \<lparr>link_key = i, link_segment = segments strategy ! nat i\<rparr>)
          (filter (\<lambda>i. 0 \<le> i \<and> i < int (length (segments strategy))) (indices_or_empty item))"
  by (auto simp: rendered_links_filter impacted_segments_def render_segment_def array_get_def
        indices_or_empty_def)

theorem out_of_range_index_skipped_witness:
  "rendered_links (segments two_segment_strategy) (hd (outdatedItems two_segment_strategy))
     = [\<lparr>link_key = 0,
         link_segment = \<lparr>startTime = ''00:00'', endTime = ''01:00'', summary = ''Intro'',
                          subjects = [''React''], needsUpdate = Some True\<rparr>\<rparr>]
   \<and> render_segment (segments two_segment_strategy) 5 = None"
proof -
  have l: "length (segments two_segment_strategy) = 2"
    by (simp add: two_segment_strategy_def)
  have a: "affectedSegmentIndices (hd (outdatedItems two_segment_strategy)) = Some [0, 5]"
    by (simp add: two_segment_strategy_def)
  have z: "segments two_segment_strategy ! 0
             = \<lparr>startTime = ''00:00'', endTime = ''01:00'', summary = ''Intro'',
                subjects = [''React''], needsUpdate = Some True\<rparr>"
    by (simp add: two_segment_strategy_def)
  from out_of_range_index_skipped
         [of two_segment_strategy "hd (outdatedItems two_segment_strategy)" 5] l a z
  show ?thesis by simp
qed

section \<open>The overlay\<close>

lemma is_image_part_data:
  "is_image_part p \<Longrightarrow>
     \<exists>b mime. inlineData p = Some b \<and> mimeType b = Some mime \<and> prefix ''image/'' mime"
  by (auto simp: is_image_part_def split: option.splits)

lemma first_image_typed:
  "\<forall>p \<in> set (takeWhile (\<lambda>p. \<not> is_image_part p) ps). typed_inline_data p \<Longrightarrow>
     first_image ps =
       Inr (case filter is_image_part ps of
              [] \<Rightarrow> None
            | p # _ \<Rightarrow> Some (data_url (the (mimeType (the (inlineData p))))
                                (data (the (inlineData p)))))"
  by (induction ps) (auto simp: typed_inline_data_def is_image_part_def split: option.splits)

text \<open>
  Inline data without a mime type, met before any image part, ends the function with a
  TypeError: neither an image nor the error of line 192.
\<close>

lemma overlay_untyped_inline_data:
  "generateVisualOverlay (Some ''key'') (Inr untyped_inline_data) = Inl TypeError"
  by (simp add: generateVisualOverlay_def untyped_inline_data_def response_parts_def)

text \<open>
  C7, as stated, fails on a response whose only image part is in the second candidate:
  the response contains a part whose inline data has an image mime type, and the
  function, which reads the parts of the first candidate, fails with the error of line 192.
\<close>

theorem overlay_iff_image_part_counterexample:
  "\<lparr>inlineData = Some \<lparr>mimeType = Some ''image/png'', data = Some ''AAAA''\<rparr>, partText = None\<rparr>
     \<in> set (all_parts image_in_second_candidate)
   \<and> is_image_part
       \<lparr>inlineData = Some \<lparr>mimeType = Some ''image/png'', data = Some ''AAAA''\<rparr>, partText = None\<rparr>
   \<and> generateVisualOverlay (Some ''key'') (Inr image_in_second_candidate) = Inl NoImageGenerated"
  by (simp add: all_parts_def candidate_parts_def image_in_second_candidate_def
        is_image_part_def generateVisualOverlay_def response_parts_def)

text \<open>
  C7, amended. With a key in the environment and a response from the provider in which
  no inline data without a mime type comes before the first image part of the first
  candidate, the function returns a data URL exactly when one of the parts of the first
  candidate
  (\<open>response.candidates?.[0]?.content?.parts\<close>) carries inline data whose mime type
  starts with \<open>image/\<close>; the URL is built from the mime type and the data of the first
  such part; and without such a part the function fails with the error of line 192.
\<close>

theorem overlay_iff_image_part:
  assumes "apiKey \<noteq> None" and "apiKey \<noteq> Some []"
    and "\<forall>p \<in> set (takeWhile (\<lambda>p. \<not> is_image_part p) (parts_read r)). typed_inline_data p"
  shows "((\<exists>url. generateVisualOverlay apiKey (Inr r) = Inr url)
            \<longleftrightarrow> (\<exists>p \<in> set (parts_read r). is_image_part p))
       \<and> (\<forall>url. generateVisualOverlay apiKey (Inr r) = Inr url \<longrightarrow>
             (\<exists>p rest b mime. filter is_image_part (parts_read r) = p # rest
                \<and> inlineData p = Some b \<and> mimeType b = Some mime
                \<and> url = ''data:'' @ mime @ '';base64,''
                          @ (case data b of None \<Rightarrow> ''undefined'' | Some d \<Rightarrow> d)))
       \<and> ((\<forall>p \<in> set (parts_read r). \<not> is_image_part p)
            \<longrightarrow> generateVisualOverlay apiKey (Inr r) = Inl NoImageGenerated)"
proof -
  have f: "first_image (parts_read r) =
             Inr (case filter is_image_part (parts_read r) of
                    [] \<Rightarrow> None
                  | p # _ \<Rightarrow> Some (data_url (the (mimeType (the (inlineData p))))
                                      (data (the (inlineData p)))))"
    using assms(3) by (rule first_image_typed)
  have g: "generateVisualOverlay apiKey (Inr r) =
             (case first_image (parts_read r) of
                Inl e \<Rightarrow> Inl e
              | Inr (Some url) \<Rightarrow> Inr url
              | Inr None \<Rightarrow> Inl NoImageGenerated)"
    using assms(1,2) by (auto simp: generateVisualOverlay_def parts_read_def split: option.splits)
  show ?thesis
  proof (cases "filter is_image_part (parts_read r)")
    case Nil
    then have "\<forall>p \<in> set (parts_read r). \<not> is_image_part p" by (simp add: filter_empty_conv)
    with Nil f g show ?thesis by simp
  next
    case (Cons p rest)
    then have "p \<in> set (filter is_image_part (parts_read r))" by simp
    then have p: "p \<in> set (parts_read r)" "is_image_part p" by auto
    from is_image_part_data [OF p(2)] obtain b mime where
      b: "inlineData p = Some b" "mimeType b = Some mime" by blast
    from Cons f g b have "generateVisualOverlay apiKey (Inr r) = Inr (data_url mime (data b))"
      by simp
    with p b Cons show ?thesis by (auto simp: data_url_def)
  qed
qed

theorem overlay_iff_image_part_witness:
  "generateVisualOverlay (Some ''key'')
     (Inr \<lparr>candidates = Some [\<lparr>content = Some \<lparr>parts = Some
        [\<lparr>inlineData = None, partText = Some ''done''\<rparr>,
         \<lparr>inlineData = Some \<lparr>mimeType = Some ''image/png'', data = Some ''AAAA''\<rparr>,
          partText = None\<rparr>]\<rparr>\<rparr>]\<rparr>)
     = Inr ''data:image/png;base64,AAAA''
   \<and> generateVisualOverlay (Some ''key'')
       (Inr \<lparr>candidates = Some [\<lparr>content = Some \<lparr>parts = Some
          [\<lparr>inlineData = Some \<lparr>mimeType = Some ''text/plain'', data = Some ''AAAA''\<rparr>,
            partText = None\<rparr>]\<rparr>\<rparr>]\<rparr>)
     = Inl NoImageGenerated"
proof -
  let ?img = "\<lparr>inlineData = Some \<lparr>mimeType = Some ''image/png'', data = Some ''AAAA''\<rparr>,
               partText = None\<rparr>"
  let ?r1 = "\<lparr>candidates = Some [\<lparr>content = Some \<lparr>parts = Some
        [\<lparr>inlineData = None, partText = Some ''done''\<rparr>, ?img]\<rparr>\<rparr>]\<rparr>"
  let ?r2 = "\<lparr>candidates = Some [\<lparr>content = Some \<lparr>parts = Some
          [\<lparr>inlineData = Some \<lparr>mimeType = Some ''text/plain'', data = Some ''AAAA''\<rparr>,
            partText = None\<rparr>]\<rparr>\<rparr>]\<rparr>"
  have k: "Some ''key'' \<noteq> None" "Some ''key'' \<noteq> Some []" by simp_all
  have t1: "\<forall>p \<in> set (takeWhile (\<lambda>p. \<not> is_image_part p) (parts_read ?r1)). typed_inline_data p"
    by (simp add: parts_read_def response_parts_def typed_inline_data_def is_image_part_def)
  have t2: "\<forall>p \<in> set (takeWhile (\<lambda>p. \<not> is_image_part p) (parts_read ?r2)). typed_inline_data p"
    by (simp add: parts_read_def response_parts_def typed_inline_data_def is_image_part_def)
  have f: "filter is_image_part (parts_read ?r1) = [?img]"
    by (simp add: parts_read_def response_parts_def is_image_part_def)
  have "\<exists>p \<in> set (parts_read ?r1). is_image_part p"
    by (simp add: parts_read_def response_parts_def is_image_part_def)
  with overlay_iff_image_part [OF k t1]
  obtain url where u: "generateVisualOverlay (Some ''key'') (Inr ?r1) = Inr url"
    by blast
  with overlay_iff_image_part [OF k t1] f have 1: "url = ''data:image/png;base64,AAAA''"
    by auto
  have "\<forall>p \<in> set (parts_read ?r2). \<not> is_image_part p"
    by (simp add: parts_read_def response_parts_def is_image_part_def)
  with overlay_iff_image_part [OF k t2]
  have 2: "generateVisualOverlay (Some ''key'') (Inr ?r2) = Inl NoImageGenerated" by blast
  from u 1 2 show ?thesis by simp
qed

section \<open>The video identifier\<close>

lemma group1_suffix: "group1 r = Some r' \<Longrightarrow> \<exists>alt. r = alt @ r'"
  by (auto simp: group1_def split: if_splits intro: append_take_drop_id [symmetric])

lemma group2_inside:
  assumes "group1 (drop k url) = Some r'"
  shows "\<exists>pre post. url = pre @ takeWhile is_id_char r' @ post"
proof -
  from group1_suffix [OF assms] obtain alt where "drop k url = alt @ r'" by blast
  then have "url = take k url @ alt @ r'" by (metis append_take_drop_id)
  then have "url = (take k url @ alt) @ takeWhile is_id_char r' @ dropWhile is_id_char r'"
    by simp
  then show ?thesis by blast
qed

lemma match_from_inside:
  "match_from url k = Some g \<Longrightarrow>
     (\<exists>pre post. url = pre @ g @ post) \<and> (\<forall>c \<in> set g. is_id_char c)"
proof (induction k)
  case 0
  then obtain r' where r: "group1 (drop 0 url) = Some r'" and g: "g = takeWhile is_id_char r'"
    by auto
  from group2_inside [OF r] g show ?case by (auto dest: set_takeWhileD)
next
  case (Suc k)
  show ?case
  proof (cases "group1 (drop (Suc k) url)")
    case None
    with Suc show ?thesis by simp
  next
    case (Some r')
    with Suc.prems have g: "g = takeWhile is_id_char r'" by simp
    from group2_inside [OF Some] g show ?thesis by (auto dest: set_takeWhileD)
  qed
qed

text \<open>
  C8. For every URL the function returns \<open>null\<close> or a string of exactly 11 characters;
  that string is a piece of the URL and holds none of \<open>#\<close>, \<open>&\<close> and \<open>?\<close>. The
  function is total: no input raises.
\<close>

theorem video_id_length:
  "getYoutubeVideoId url = None
   \<or> (\<exists>v. getYoutubeVideoId url = Some v \<and> length v = 11
          \<and> (\<exists>pre post. url = pre @ v @ post)
          \<and> CHR ''#'' \<notin> set v \<and> CHR ''&'' \<notin> set v \<and> CHR ''?'' \<notin> set v)"
proof (cases "getYoutubeVideoId url")
  case None
  then show ?thesis by simp
next
  case (Some v)
  then have m: "match_from url (length (takeWhile is_dot url)) = Some v" and l: "length v = 11"
    by (auto simp: getYoutubeVideoId_def split: option.splits if_splits)
  from match_from_inside [OF m] have "\<exists>pre post. url = pre @ v @ post"
    and "\<forall>c \<in> set v. is_id_char c" by auto
  with Some l show ?thesis by (auto simp: is_id_char_def)
qed

theorem video_id_length_witness:
  "getYoutubeVideoId ''https://www.youtube.com/watch?v=dQw4w9WgXcQ&t=42s'' = Some ''dQw4w9WgXcQ''
   \<and> getYoutubeVideoId ''https://www.youtube.com/watch?v=short'' = None"
proof -
  have 1: "getYoutubeVideoId ''https://www.youtube.com/watch?v=dQw4w9WgXcQ&t=42s'' = Some ''dQw4w9WgXcQ''"
    by code_simp
  have 2: "getYoutubeVideoId ''https://www.youtube.com/watch?v=short'' = None"
    by code_simp
  from video_id_length [of "''https://www.youtube.com/watch?v=dQw4w9WgXcQ&t=42s''"] 1 2
  show ?thesis by simp
qed

section \<open>Segments impacted\<close>

lemma set_add_set: "set (set_add held x) = insert x (set held)"
  by (auto simp: set_add_def)

lemma set_add_distinct: "distinct held \<Longrightarrow> distinct (set_add held x)"
  by (auto simp: set_add_def)

lemma foldl_set_add:
  "distinct held \<Longrightarrow>
     distinct (foldl set_add held xs) \<and> set (foldl set_add held xs) = set held \<union> set xs"
  by (induction xs arbitrary: held) (auto simp: set_add_set set_add_distinct)

lemma new_Set_size: "length (new_Set xs) = card (set xs)"
proof -
  have "distinct (new_Set xs)" and "set (new_Set xs) = set xs"
    using foldl_set_add [of "[]" xs] by (simp_all add: new_Set_def)
  then show ?thesis by (metis distinct_card)
qed

text \<open>
  C10. The count shown as "Segments Impacted" is the number of distinct values in the
  union of the items' \<open>affectedSegmentIndices\<close>; it does not depend on the segments, so
  an index outside them is counted like any other.
\<close>

theorem segments_impacted_counts_distinct:
  "segments_impacted strategy
     = card (\<Union>item \<in> set (outdatedItems strategy). set (indices_or_empty item))
   \<and> segments_impacted (strategy\<lparr>segments := segs\<rparr>) = segments_impacted strategy"
  by (simp add: segments_impacted_def new_Set_size)


theorem segments_impacted_counts_distinct_witness:
  "segments_impacted
     \<lparr>originalVideoMetadata = None, segments = [],
      outdatedItems =
        [\<lparr>subject = ''a'', oldTool = ''b'', newTool = ''c'', reason = ''d'', impactScore = 3,
          affectedSegmentIndices = Some [0, 5]\<rparr>,
         \<lparr>subject = ''e'', oldTool = ''f'', newTool = ''g'', reason = ''h'', impactScore = 4,
          affectedSegmentIndices = Some [5, 7, 5]\<rparr>,
         \<lparr>subject = ''i'', oldTool = ''j'', newTool = ''k'', reason = ''l'', impactScore = 5,
          affectedSegmentIndices = None\<rparr>],
      revivalPlan = None, revivalSummary = None, predictedViews = 1, predictedEngagement = 2\<rparr>
   = 3"
proof -
  let ?s = "\<lparr>originalVideoMetadata = None, segments = [],
      outdatedItems =
        [\<lparr>subject = ''a'', oldTool = ''b'', newTool = ''c'', reason = ''d'', impactScore = 3,
          affectedSegmentIndices = Some [0, 5]\<rparr>,
         \<lparr>subject = ''e'', oldTool = ''f'', newTool = ''g'', reason = ''h'', impactScore = 4,
          affectedSegmentIndices = Some [5, 7, 5]\<rparr>,
         \<lparr>subject = ''i'', oldTool = ''j'', newTool = ''k'', reason = ''l'', impactScore = 5,
          affectedSegmentIndices = None\<rparr>],
      revivalPlan = None, revivalSummary = None, predictedViews = 1, predictedEngagement = 2\<rparr>"
  have "(\<Union>item \<in> set (outdatedItems ?s). set (indices_or_empty item)) = {0, 5, 7}"
    by (auto simp: indices_or_empty_def)
  moreover have "card {0, 5, 7 :: int} = 3" by simp
  ultimately show ?thesis
    using segments_impacted_counts_distinct [of ?s "[]"] by (simp only:)
qed


end
